(* ===== verification/Go_Prelude.thy ===== *)
theory Go_Prelude
  imports Main "HOL-Library.Word"
begin

text \<open>
  Shared vocabulary of the gozstd model: the byte and file-system types, the
  failures the Go code can end in (returned errors and runtime panics alike),
  Go's 64-bit signed arithmetic written out on \<open>int\<close> (wrap-around \<open>i64\<close>,
  truncating quotient \<open>go_quot\<close> and remainder \<open>go_rem\<close>), the 1 MiB
  constant \<open>oneMB\<close> of \<^verbatim>\<open>main.go\<close> and the splitting of a byte string into
  buffer-sized chunks, with the generic lemmas the component theories share.
\<close>

section \<open>Types of the model\<close>

type_synonym byte = "8 word"
type_synonym bytes = "byte list"

text \<open>The file system as the code sees it: a path names a file's contents.\<close>

type_synonym fsys = "string \<Rightarrow> bytes option"

text \<open>
  Every way a run of the block pipeline can end other than normally.
  Constructors marked (panic) are Go runtime panics or explicit \<open>panic\<close>
  calls, which crash the whole process; the others are returned \<open>error\<close>
  values.
\<close>

datatype failure =
    DivideByZero                  \<comment> \<open>(panic) integer divide by zero\<close>
  | MakechanSizeOutOfRange        \<comment> \<open>(panic) \<open>make(chan T, n)\<close> with \<open>n < 0\<close>\<close>
  | IndexOutOfRange               \<comment> \<open>(panic) slice index out of range\<close>
  | StatFailed                    \<comment> \<open>\<open>os.Stat\<close> error\<close>
  | OpenFailed string             \<comment> \<open>\<open>os.Open\<close> error, with the path\<close>
  | ReadFailed                    \<comment> \<open>\<open>input.Read\<close> error other than EOF\<close>
  | ReadOverEnd                   \<comment> \<open>(panic) "I read over the endOffset"\<close>
  | InvalidFilenamePattern string \<comment> \<open>no \<open>-\<close> in a segment file name\<close>
  | InvalidIndex string           \<comment> \<open>\<open>strconv.Atoi\<close> rejects the name prefix\<close>
  | SomeWorkerFailed              \<comment> \<open>(panic) "some errors see above"\<close>
  | DecodeFailed                  \<comment> \<open>"failed to decompress data"\<close>
  | BlockModeNeedsFiles           \<comment> \<open>(panic) block mode without input file or \<open>-o\<close>\<close>
  | NoOutputDestination           \<comment> \<open>"No output destination specified"\<close>
  | SendOnClosedChannel           \<comment> \<open>(panic) send on a closed channel\<close>

fun is_panic :: "failure \<Rightarrow> bool" where
  "is_panic DivideByZero = True"
| "is_panic MakechanSizeOutOfRange = True"
| "is_panic IndexOutOfRange = True"
| "is_panic ReadOverEnd = True"
| "is_panic SomeWorkerFailed = True"
| "is_panic BlockModeNeedsFiles = True"
| "is_panic SendOnClosedChannel = True"
| "is_panic _ = False"

section \<open>Go int64 arithmetic\<close>

named_theorems i64_simps "rewrites that remove wrap-around from in-range int64 terms"

definition i64 :: "int \<Rightarrow> int" where
  "i64 x = (x + 2 ^ 63) mod 2 ^ 64 - 2 ^ 63"

definition in_i64 :: "int \<Rightarrow> bool" where
  "in_i64 x \<longleftrightarrow> - (2 ^ 63) \<le> x \<and> x < 2 ^ 63"

text \<open>Go's \<open>/\<close> and \<open>%\<close> on integers truncate towards zero.\<close>

definition go_quot :: "int \<Rightarrow> int \<Rightarrow> int" where
  "go_quot a b = sgn a * sgn b * (\<bar>a\<bar> div \<bar>b\<bar>)"

definition go_rem :: "int \<Rightarrow> int \<Rightarrow> int" where
  "go_rem a b = a - b * go_quot a b"

definition oneMB :: nat where
  "oneMB = 2 ^ 20"

section \<open>Chunks\<close>

text \<open>A byte string cut into consecutive pieces of \<open>n\<close> bytes, the last one shorter.\<close>

fun chunks_of :: "nat \<Rightarrow> 'a list \<Rightarrow> 'a list list" where
  "chunks_of n xs = (if n = 0 \<or> xs = [] then [] else take n xs # chunks_of n (drop n xs))"

declare chunks_of.simps [simp del]

text \<open>The bytes \<open>[s, e)\<close> of a file.\<close>

definition byte_range :: "nat \<Rightarrow> nat \<Rightarrow> 'a list \<Rightarrow> 'a list" where
  "byte_range s e xs = take (e - s) (drop s xs)"

section \<open>Lemmas\<close>

lemma i64_in_range [simp, i64_simps]: "in_i64 x \<Longrightarrow> i64 x = x"
  by (auto simp: i64_def in_i64_def)

lemma in_i64_i64 [simp]: "in_i64 (i64 x)"
  by (simp add: i64_def in_i64_def)

lemma i64_add_wrap: "i64 (i64 a + b) = i64 (a + b)"
  by (simp add: i64_def mod_simps ac_simps)

lemma go_quot_nonneg [simp, i64_simps]: "0 \<le> a \<Longrightarrow> 0 < b \<Longrightarrow> go_quot a b = a div b"
proof (cases "a = 0")
  case False
  assume "0 \<le> a" "0 < b"
  with False show ?thesis by (simp add: go_quot_def)
qed (simp add: go_quot_def)

lemma go_rem_nonneg [simp, i64_simps]: "0 \<le> a \<Longrightarrow> 0 < b \<Longrightarrow> go_rem a b = a mod b"
  by (simp add: go_rem_def minus_div_mult_eq_mod [symmetric] mult.commute)

lemma oneMB_pos [simp]: "0 < oneMB"
  by (simp add: oneMB_def)

lemma chunks_of_Nil [simp]: "chunks_of n [] = []"
  by (simp add: chunks_of.simps)

lemma chunks_of_Cons_eq:
  "0 < n \<Longrightarrow> xs \<noteq> [] \<Longrightarrow> chunks_of n xs = take n xs # chunks_of n (drop n xs)"
  by (simp add: chunks_of.simps)

lemma concat_chunks_of [simp]: "0 < n \<Longrightarrow> concat (chunks_of n xs) = xs"
proof (induction n xs rule: chunks_of.induct)
  case (1 n xs)
  then show ?case
    by (cases "xs = []") (simp_all add: chunks_of_Cons_eq)
qed

lemma chunks_of_nonempty: "0 < n \<Longrightarrow> c \<in> set (chunks_of n xs) \<Longrightarrow> c \<noteq> [] \<and> length c \<le> n"
proof (induction n xs rule: chunks_of.induct)
  case (1 n xs)
  then show ?case
    by (cases "xs = []") (auto simp: chunks_of_Cons_eq)
qed

lemma byte_range_append_byte_range:
  "a \<le> b \<Longrightarrow> b \<le> c \<Longrightarrow> byte_range a b xs @ byte_range b c xs = byte_range a c xs"
proof -
  assume ab: "a \<le> b" and bc: "b \<le> c"
  have "take (c - a) (drop a xs) = take (b - a) (drop a xs) @ take (c - b) (drop (b - a) (drop a xs))"
    using ab bc by (metis le_add_diff_inverse diff_le_mono take_add diff_diff_left)
  then show ?thesis
    using ab by (simp add: byte_range_def add.commute)
qed

lemma byte_range_all [simp]: "byte_range 0 (length xs) xs = xs"
  by (simp add: byte_range_def)

lemma byte_range_concat:
  assumes "\<And>i. g i \<le> g (Suc i)"
  shows "concat (map (\<lambda>i. byte_range (g i) (g (Suc i)) xs) [0..<n]) = byte_range (g 0) (g n) xs"
proof (induction n)
  case 0
  then show ?case by (simp add: byte_range_def)
next
  case (Suc n)
  have "g 0 \<le> g n" using assms by (induction n) (auto intro: order_trans)
  with Suc show ?case using assms [of n] by (simp add: byte_range_append_byte_range)
qed

text \<open>Updating a map at the images of a list of keys.\<close>

lemma fold_map_upd_other:
  "p \<notin> g ` set xs \<Longrightarrow> fold (\<lambda>i m. m(g i \<mapsto> v i)) xs m p = m p"
  by (induction xs arbitrary: m) auto

lemma fold_map_upd_at:
  "i \<in> set xs \<Longrightarrow> inj_on g (set xs) \<Longrightarrow> fold (\<lambda>i m. m(g i \<mapsto> v i)) xs m (g i) = Some (v i)"
proof (induction xs arbitrary: m)
  case (Cons x xs)
  show ?case
  proof (cases "i \<in> set xs")
    case True
    with Cons show ?thesis by simp
  next
    case False
    then have "i = x" using Cons.prems by simp
    moreover have "g x \<notin> g ` set xs" using Cons.prems(2) False \<open>i = x\<close> by (auto simp: inj_on_def)
    then have "fold (\<lambda>i m. m(g i \<mapsto> v i)) xs (m(g x \<mapsto> v x)) (g x) = (m(g x \<mapsto> v x)) (g x)"
      by (rule fold_map_upd_other)
    ultimately show ?thesis by (simp only: fold_Cons comp_def fun_upd_same)
  qed
qed simp

lemma concat_concat_chunks_of:
  "0 < k \<Longrightarrow> concat (concat (map (\<lambda>i. chunks_of k (f i)) xs)) = concat (map f xs)"
  by (induction xs) simp_all

lemma nat_in_i64: "in_i64 x \<Longrightarrow> nat x \<le> 2 ^ 63"
  unfolding in_i64_def by (simp add: nat_le_iff)

lemma fold_map_upd_some:
  "i \<in> set xs \<Longrightarrow> fold (\<lambda>i m. m(g i \<mapsto> v i)) xs m (g i) \<noteq> None"
proof (induction xs arbitrary: m i)
  case (Cons x xs)
  show ?case
  proof (cases "i \<in> set xs")
    case True
    with Cons.IH show ?thesis by simp
  next
    case False
    then have "i = x" using Cons.prems by simp
    show ?thesis
    proof (cases "g i \<in> g ` set xs")
      case True
      then obtain j where j: "j \<in> set xs" "g i = g j" by blast
      have "fold (\<lambda>i m. m(g i \<mapsto> v i)) xs (m(g x \<mapsto> v x)) (g j) \<noteq> None"
        using j(1) by (rule Cons.IH)
      then show ?thesis unfolding j(2) by (simp only: fold_Cons comp_def simp_thms)
    next
      case False
      have "fold (\<lambda>i m. m(g i \<mapsto> v i)) xs (m(g x \<mapsto> v x)) (g i) = (m(g x \<mapsto> v x)) (g i)"
        by (rule fold_map_upd_other) (rule False)
      then show ?thesis using \<open>i = x\<close> by (simp only: fold_Cons comp_def fun_upd_same option.distinct(2) simp_thms)
    qed
  qed
qed simp

lemma concat_map_concat_map:
  "concat (map (\<lambda>i. concat (map f (g i))) xs) = concat (map f (concat (map g xs)))"
  by (induction xs) simp_all

end
