(* ===== verification/Segment_Planner.thy ===== *)
theory Segment_Planner
  imports Go_Prelude
begin

text \<open>
  The Segment Planner of the block pipeline: \<open>divmod\<close>,
  \<open>divideFileIntoSegments\<close> and \<open>calculateSegment\<close> of
  \<^verbatim>\<open>src/unnamed/part_000\<close> (the block-mode \<^verbatim>\<open>main.go\<close>). The loop of
  \<open>divideFileIntoSegments\<close> is \<open>plan_loop\<close>, one equation per iteration,
  every int64 operation wrapped by \<open>i64\<close>. \<open>plan\<close> is the closed form the spec
  describes (unit shares of \<open>U div w\<close>, one extra unit for the first \<open>U mod w\<close>
  workers, boundaries clamped to the file size); the refinement theorem says the
  code computes it whenever \<open>fileSize + oneMB\<close> fits in an int64. The partition,
  alignment, balance and zero-length properties are then proved of \<open>plan\<close>.
\<close>

section \<open>The code\<close>

definition divmod :: "int \<Rightarrow> int \<Rightarrow> failure + int \<times> int" where
  "divmod numerator denominator =
     (if denominator = 0 then Inl DivideByZero
      else Inr (i64 (go_quot numerator denominator), go_rem numerator denominator))"

text \<open>
  One equation per iteration of \<^verbatim>\<open>for i := 0; i < threadCount; i++\<close>: the
  first argument counts the iterations left, \<open>start\<close> and \<open>remainingMB\<close> are the
  loop's mutable variables.
\<close>

fun plan_loop :: "nat \<Rightarrow> int \<Rightarrow> int \<Rightarrow> int \<Rightarrow> int \<Rightarrow> (int \<times> int) list" where
  "plan_loop 0 fileSize segmentSizeMB remainingMB start = []"
| "plan_loop (Suc k) fileSize segmentSizeMB remainingMB start =
     (let end0 = i64 (start + i64 (segmentSizeMB * int oneMB));
          end1 = (if 0 < remainingMB then i64 (end0 + int oneMB) else end0);
          remainingMB' = (if 0 < remainingMB then i64 (remainingMB - 1) else remainingMB);
          end2 = (if fileSize < end1 then fileSize else end1)
      in (start, end2) # plan_loop k fileSize segmentSizeMB remainingMB' end2)"

definition divideFileIntoSegments :: "int \<Rightarrow> int \<Rightarrow> failure + (int \<times> int) list" where
  "divideFileIntoSegments fileSize threadCount =
     (let fileSizeMB = i64 (go_quot (i64 (i64 (fileSize + int oneMB) - 1)) (int oneMB))
      in if threadCount = 0 then Inl DivideByZero
         else Inr (plan_loop (nat threadCount) fileSize
                    (i64 (go_quot fileSizeMB threadCount)) (go_rem fileSizeMB threadCount) 0))"

definition calculateSegment :: "fsys \<Rightarrow> string \<Rightarrow> int \<Rightarrow> failure + (int \<times> int) list" where
  "calculateSegment fs inputFile numThreads =
     (case fs inputFile of
        None \<Rightarrow> Inl StatFailed
      | Some content \<Rightarrow> divideFileIntoSegments (int (length content)) numThreads)"

section \<open>The specification: unit shares and clamped boundaries\<close>

definition units :: "int \<Rightarrow> int" where
  "units fileSize = (fileSize + int oneMB - 1) div int oneMB"

text \<open>Units handed to the workers before worker \<open>i\<close>.\<close>

definition unit_offset :: "int \<Rightarrow> int \<Rightarrow> nat \<Rightarrow> int" where
  "unit_offset base R i = int i * base + min (int i) R"

definition boundary :: "int \<Rightarrow> int \<Rightarrow> int \<Rightarrow> nat \<Rightarrow> int" where
  "boundary fileSize base R i = min fileSize (int oneMB * unit_offset base R i)"

definition plan :: "int \<Rightarrow> nat \<Rightarrow> (int \<times> int) list" where
  "plan fileSize w =
     (let U = units fileSize; base = U div int w; R = U mod int w
      in map (\<lambda>i. (boundary fileSize base R i, boundary fileSize base R (Suc i))) [0..<w])"

text \<open>Segments that start at \<open>s\<close>, follow each other without gap or overlap, and end at \<open>e\<close>.\<close>

fun covers :: "int \<Rightarrow> (int \<times> int) list \<Rightarrow> int \<Rightarrow> bool" where
  "covers s [] e = (s = e)"
| "covers s ((a, b) # segs) e = (a = s \<and> a \<le> b \<and> covers b segs e)"

definition is_partition :: "int \<Rightarrow> (int \<times> int) list \<Rightarrow> bool" where
  "is_partition fileSize segs = covers 0 segs fileSize"

section \<open>Lemmas on the closed form\<close>

lemma unit_offset_Suc:
  "unit_offset base R (Suc i) = unit_offset base R i + base + (if int i < R then 1 else 0)"
  by (simp add: unit_offset_def algebra_simps min_def)

lemma unit_offset_mono:
  assumes "0 \<le> base" "i \<le> j"
  shows "unit_offset base R i \<le> unit_offset base R j"
proof -
  have "int i * base \<le> int j * base"
    using assms by (simp add: mult_right_mono)
  then show ?thesis
    using assms by (simp add: unit_offset_def min_def)
qed

lemma boundary_mono:
  "0 \<le> base \<Longrightarrow> i \<le> j \<Longrightarrow> boundary fs base R i \<le> boundary fs base R j"
  using unit_offset_mono [of base i j R] by (simp add: boundary_def min_le_iff_disj)

lemma unit_offset_total:
  "0 < w \<Longrightarrow> unit_offset (U div int w) (U mod int w) w = U"
proof -
  assume "0 < w"
  then have "U mod int w < int w" by simp
  then show ?thesis
    by (simp add: unit_offset_def min_def mult.commute)
qed

lemma units_nonneg:
  assumes "0 \<le> fs"
  shows "0 \<le> units fs"
proof -
  have "0 < int oneMB" by simp
  with assms have "0 < fs + int oneMB" by linarith
  then show ?thesis by (simp add: units_def pos_imp_zdiv_nonneg_iff)
qed

lemma units_div_mod: "int oneMB * units fs + (fs + int oneMB - 1) mod int oneMB = fs + int oneMB - 1"
  unfolding units_def by (simp add: mult.commute [of "int oneMB"])

lemma units_cover: "fs \<le> int oneMB * units fs"
proof -
  have "(fs + int oneMB - 1) mod int oneMB < int oneMB"
    by simp
  then show ?thesis
    using units_div_mod [of fs] by linarith
qed

lemma units_bound: "int oneMB * units fs \<le> fs + int oneMB - 1"
proof -
  have "0 \<le> (fs + int oneMB - 1) mod int oneMB"
    by simp
  then show ?thesis
    using units_div_mod [of fs] by linarith
qed

lemma covers_boundaries:
  assumes "\<And>i. f i \<le> f (Suc i)"
  shows "covers (f j) (map (\<lambda>i. (f i, f (Suc i))) [j..<j + k]) (f (j + k))"
proof (induction k arbitrary: j)
  case 0
  then show ?case by simp
next
  case (Suc k)
  have "[j..<j + Suc k] = j # [Suc j..<Suc j + k]"
    by (simp add: upt_rec)
  moreover have "covers (f (Suc j)) (map (\<lambda>i. (f i, f (Suc i))) [Suc j..<Suc j + k]) (f (Suc j + k))"
    by (rule Suc.IH)
  ultimately show ?case
    using assms by simp
qed

section \<open>The loop computes the closed form\<close>

text \<open>One iteration, from the boundary of worker \<open>j\<close>, without wrap-around.\<close>

lemma plan_loop_step:
  assumes nn: "0 \<le> fs" "0 \<le> base" "0 \<le> R" and R64: "R < 2 ^ 63"
    and fit: "int oneMB * unit_offset base R (Suc j) < 2 ^ 63"
  defines "start \<equiv> boundary fs base R j"
  defines "rem \<equiv> R - min (int j) R"
  shows "plan_loop (Suc k) fs base rem start =
           (start, boundary fs base R (Suc j))
           # plan_loop k fs base (R - min (int (Suc j)) R) (boundary fs base R (Suc j))"
proof -
  let ?M = "int oneMB"
  let ?u = "unit_offset base R j"
  have M: "0 < ?M" by simp
  have u0: "0 \<le> ?u" using nn by (simp add: unit_offset_def)
  have uS: "unit_offset base R (Suc j) = ?u + base + (if int j < R then 1 else 0)"
    by (rule unit_offset_Suc)
  have st: "0 \<le> start \<and> start \<le> ?M * ?u \<and> start \<le> fs"
    using nn u0 by (simp add: start_def boundary_def)
  define b where "b = ?M * base"
  have b_comm: "base * ?M = b"
    by (simp add: b_def mult.commute)
  have b0: "0 \<le> b"
    using nn by (simp add: b_def)
  have e1: "?M * ?u + b + (if int j < R then ?M else 0) = ?M * unit_offset base R (Suc j)"
    using uS by (simp add: b_def algebra_simps)
  have e2: "?M * ?u + b \<le> ?M * unit_offset base R (Suc j)"
    using e1 by (simp split: if_splits)
  have Mu0: "0 \<le> ?M * ?u"
    using u0 by simp
  have in1: "in_i64 (base * ?M)"
    using b0 e2 Mu0 fit unfolding b_comm in_i64_def by linarith
  have in2: "in_i64 (start + base * ?M)"
    using st b0 e2 fit unfolding b_comm in_i64_def by linarith
  have in3: "int j < R \<Longrightarrow> in_i64 (start + base * ?M + ?M)"
    using st b0 e1 fit unfolding b_comm in_i64_def by simp
  have rem_pos: "(0 < rem) = (int j < R)"
    by (simp add: rem_def min_def)
  have rem_next: "(if 0 < rem then i64 (rem - 1) else rem) = R - min (int (Suc j)) R"
    using nn R64 by (auto simp: rem_def min_def in_i64_def)
  define end1 where "end1 = start + b + (if int j < R then ?M else 0)"
  have end1_eq: "(if 0 < rem then i64 (i64 (start + i64 (base * ?M)) + ?M)
                 else i64 (start + i64 (base * ?M))) = end1"
    using in1 in2 in3 rem_pos by (simp add: end1_def b_comm)
  have clamp: "(if fs < end1 then fs else end1) = boundary fs base R (Suc j)"
  proof (cases "?M * ?u \<le> fs")
    case True
    then have "start = ?M * ?u" by (simp add: start_def boundary_def)
    then have "end1 = ?M * unit_offset base R (Suc j)"
      using e1 by (simp add: end1_def)
    then show ?thesis by (simp add: boundary_def min_def)
  next
    case False
    then have "start = fs" by (simp add: start_def boundary_def)
    moreover have "fs \<le> ?M * unit_offset base R (Suc j)"
      using False e2 b0 by linarith
    ultimately show ?thesis
      using b0 by (auto simp: end1_def boundary_def min_def)
  qed
  show ?thesis
    by (simp only: plan_loop.simps Let_def end1_eq clamp rem_next)
qed

lemma plan_loop_boundaries:
  assumes "0 \<le> fs" "0 \<le> base" "0 \<le> R" "R < 2 ^ 63"
    and "int oneMB * unit_offset base R (j + k) < 2 ^ 63"
  shows "plan_loop k fs base (R - min (int j) R) (boundary fs base R j)
         = map (\<lambda>i. (boundary fs base R i, boundary fs base R (Suc i))) [j..<j + k]"
  using assms(5)
proof (induction k arbitrary: j)
  case 0
  then show ?case by simp
next
  case (Suc k)
  have "int oneMB * unit_offset base R (Suc j) \<le> int oneMB * unit_offset base R (j + Suc k)"
    using assms(2) unit_offset_mono [of base "Suc j" "j + Suc k" R] by simp
  then have fit: "int oneMB * unit_offset base R (Suc j) < 2 ^ 63"
    using Suc.prems by linarith
  have IH: "plan_loop k fs base (R - min (int (Suc j)) R) (boundary fs base R (Suc j))
            = map (\<lambda>i. (boundary fs base R i, boundary fs base R (Suc i))) [Suc j..<Suc j + k]"
    using Suc.prems by (intro Suc.IH) simp
  show ?case
    using plan_loop_step [OF assms(1-4) fit, of k] IH by (simp add: upt_rec)
qed

section \<open>Boundaries of the closed form\<close>

lemma boundary_zero: "0 \<le> fs \<Longrightarrow> 0 \<le> R \<Longrightarrow> boundary fs base R 0 = 0"
  by (simp add: boundary_def unit_offset_def)

lemma boundary_total:
  "0 < w \<Longrightarrow> boundary fs (units fs div int w) (units fs mod int w) w = fs"
  using units_cover [of fs] by (simp add: boundary_def unit_offset_total min_def)

lemma boundary_aligned: "boundary fs base R i = fs \<or> int oneMB dvd boundary fs base R i"
  by (simp add: boundary_def min_def)

lemma divideFileIntoSegments_eq_plan:
  assumes fs: "0 \<le> fileSize" "fileSize \<le> 2 ^ 63 - int oneMB"
    and t: "0 < threadCount" "in_i64 threadCount"
  shows "divideFileIntoSegments fileSize threadCount = Inr (plan fileSize (nat threadCount))"
proof -
  let ?M = "int oneMB"
  let ?U = "units fileSize"
  let ?w = "nat threadCount"
  have M: "1 \<le> ?M" using oneMB_pos by linarith
  have U0: "0 \<le> ?U" using fs(1) by (rule units_nonneg)
  have MU: "?M * ?U \<le> fileSize + ?M - 1" by (rule units_bound)
  have UMU: "?U \<le> ?M * ?U" using M U0 by (simp add: mult_le_cancel_right1)
  have in1: "in_i64 (fileSize + ?M - 1)" using fs M by (simp add: in_i64_def)
  have wrap: "i64 (i64 (fileSize + ?M) - 1) = fileSize + ?M - 1"
    using i64_add_wrap [of "fileSize + ?M" "- 1"] in1 by simp
  have fsMB: "i64 (go_quot (i64 (i64 (fileSize + ?M) - 1)) ?M) = ?U"
  proof -
    have "in_i64 ?U" using U0 UMU MU in1 by (simp add: in_i64_def)
    then show ?thesis using wrap fs M by (simp add: units_def)
  qed
  have base: "i64 (go_quot ?U threadCount) = ?U div threadCount"
  proof -
    have "?U div threadCount \<le> ?U div 1"
      using U0 t by (intro zdiv_mono2) simp_all
    then have "?U div threadCount \<le> ?U" by simp
    moreover have "0 \<le> ?U div threadCount"
      using U0 t(1) by (simp add: pos_imp_zdiv_nonneg_iff)
    ultimately have "in_i64 (?U div threadCount)"
      using UMU MU in1 unfolding in_i64_def by linarith
    then show ?thesis using U0 t by simp
  qed
  have rem: "go_rem ?U threadCount = ?U mod threadCount" using U0 t by simp
  have tw: "int ?w = threadCount" using t by simp
  have R0: "0 \<le> ?U mod threadCount" and R64: "?U mod threadCount < 2 ^ 63"
    using t by (auto simp: in_i64_def intro: order.strict_trans [OF pos_mod_bound])
  have fit: "?M * unit_offset (?U div int ?w) (?U mod int ?w) (0 + ?w) < 2 ^ 63"
    using MU in1 t unit_offset_total [of ?w ?U] by (simp add: in_i64_def)
  have loop: "plan_loop ?w fileSize (?U div int ?w) (?U mod int ?w - min (int 0) (?U mod int ?w))
               (boundary fileSize (?U div int ?w) (?U mod int ?w) 0)
         = map (\<lambda>i. (boundary fileSize (?U div int ?w) (?U mod int ?w) i,
                      boundary fileSize (?U div int ?w) (?U mod int ?w) (Suc i))) [0..<0 + ?w]"
    using fs(1) U0 t R0 R64 fit tw by (intro plan_loop_boundaries) (auto simp: pos_imp_zdiv_nonneg_iff)
  show ?thesis
    using loop t fsMB base rem tw R0 boundary_zero [OF fs(1) R0]
    by (simp add: divideFileIntoSegments_def plan_def Let_def)
qed

lemma plan_is_partition:
  assumes "0 \<le> fileSize" "0 < w"
  shows "is_partition fileSize (plan fileSize w)"
proof -
  let ?f = "boundary fileSize (units fileSize div int w) (units fileSize mod int w)"
  have U0: "0 \<le> units fileSize"
    using assms(1) by (rule units_nonneg)
  have mono: "\<And>i. ?f i \<le> ?f (Suc i)"
    using assms U0 by (intro boundary_mono) (auto simp: pos_imp_zdiv_nonneg_iff)
  have cov: "covers (?f 0) (map (\<lambda>i. (?f i, ?f (Suc i))) [0..<0 + w]) (?f (0 + w))"
    using mono by (rule covers_boundaries)
  have p: "plan fileSize w = map (\<lambda>i. (?f i, ?f (Suc i))) [0..<0 + w]"
    by (simp add: plan_def Let_def)
  have f0: "?f 0 = 0"
    using assms U0 by (intro boundary_zero) simp_all
  have fw: "?f (0 + w) = fileSize"
    using assms(2) by (simp add: boundary_total)
  show ?thesis
    using cov unfolding is_partition_def p f0 fw .
qed


lemma plan_memberD:
  "(a, b) \<in> set (plan fs w) \<Longrightarrow> \<exists>i<w. a = boundary fs (units fs div int w) (units fs mod int w) i
      \<and> b = boundary fs (units fs div int w) (units fs mod int w) (Suc i)"
  by (auto simp: plan_def Let_def)

lemma boundary_le: "boundary fs base R i \<le> fs"
  by (simp add: boundary_def)

text \<open>A boundary below the file size is followed by a strictly larger one.\<close>

lemma boundary_grows:
  assumes w: "0 < w" and fs: "0 \<le> fs"
  defines "base \<equiv> units fs div int w" and "R \<equiv> units fs mod int w"
  assumes lt: "boundary fs base R i < fs"
  shows "boundary fs base R i < boundary fs base R (Suc i)"
proof -
  let ?M = "int oneMB"
  have U0: "0 \<le> units fs" using fs by (rule units_nonneg)
  have b0: "0 \<le> base" using U0 w by (simp add: base_def pos_imp_zdiv_nonneg_iff)
  have fi: "boundary fs base R i = ?M * unit_offset base R i"
    using lt by (simp add: boundary_def min_def split: if_splits)
  have step: "1 \<le> base + (if int i < R then 1 else 0)"
  proof (rule ccontr)
    assume "\<not> ?thesis"
    then have "base = 0" "R \<le> int i" using b0 by (auto split: if_splits)
    then have "units fs < int w"
      using U0 w by (auto simp: base_def zdiv_eq_0_iff)
    then have "R = units fs"
      using U0 by (simp add: R_def)
    then have "unit_offset base R i = units fs"
      using \<open>R \<le> int i\<close> \<open>base = 0\<close> by (simp add: unit_offset_def min_def)
    then show False
      using lt fi units_cover [of fs] by simp
  qed
  have "?M * unit_offset base R i < ?M * unit_offset base R (Suc i)"
    using step by (simp add: unit_offset_Suc)
  then show ?thesis
    using lt fi by (simp add: boundary_def)
qed

lemma plan_segment_props:
  assumes "0 \<le> fs" "0 < w" "(a, b) \<in> set (plan fs w)"
  shows "a \<le> b \<and> b \<le> fs \<and> (a = fs \<or> int oneMB dvd a) \<and> (b = fs \<or> int oneMB dvd b)
         \<and> (a = b \<longrightarrow> a = fs)"
proof -
  obtain i where i: "i < w" and a: "a = boundary fs (units fs div int w) (units fs mod int w) i"
    and b: "b = boundary fs (units fs div int w) (units fs mod int w) (Suc i)"
    using plan_memberD [OF assms(3)] by blast
  have U0: "0 \<le> units fs" using assms(1) by (rule units_nonneg)
  have "a \<le> b"
    using a b U0 assms(2) by (auto intro: boundary_mono simp: pos_imp_zdiv_nonneg_iff)
  moreover have "a = b \<longrightarrow> a = fs"
  proof
    assume "a = b"
    show "a = fs"
    proof (rule ccontr)
      assume "a \<noteq> fs"
      then have "a < fs" using a boundary_le [of fs] by (simp add: order.not_eq_order_implies_strict)
      then have "a < b" using boundary_grows [OF assms(2,1), of i] a b by simp
      with \<open>a = b\<close> show False by simp
    qed
  qed
  ultimately show ?thesis
    using a b boundary_aligned boundary_le by blast
qed

lemma plan_segment_length:
  assumes "0 \<le> fs" "0 < w" "(a, b) \<in> set (plan fs w)"
  shows "b - a \<le> int oneMB * (units fs div int w + 1)
         \<and> (b < fs \<longrightarrow> int oneMB * (units fs div int w) \<le> b - a)"
proof -
  let ?M = "int oneMB"
  let ?base = "units fs div int w" and ?R = "units fs mod int w"
  obtain i where a: "a = boundary fs ?base ?R i" and b: "b = boundary fs ?base ?R (Suc i)"
    using plan_memberD [OF assms(3)] by blast
  have sh: "?M * unit_offset ?base ?R (Suc i) = ?M * unit_offset ?base ?R i
              + ?M * (?base + (if int i < ?R then 1 else 0))"
    by (simp add: unit_offset_Suc algebra_simps)
  have le1: "?M * (?base + (if int i < ?R then 1 else 0)) \<le> ?M * (?base + 1)"
    by simp
  have ge0: "?M * ?base \<le> ?M * (?base + (if int i < ?R then 1 else 0))"
    by simp
  show ?thesis
  proof (cases "?M * unit_offset ?base ?R i < fs")
    case True
    then have ai: "a = ?M * unit_offset ?base ?R i" using a by (simp add: boundary_def)
    have "b \<le> ?M * unit_offset ?base ?R (Suc i)" using b by (simp add: boundary_def)
    moreover have "b < fs \<longrightarrow> b = ?M * unit_offset ?base ?R (Suc i)"
      using b by (simp add: boundary_def min_def)
    ultimately show ?thesis
      using ai sh le1 ge0 by linarith
  next
    case False
    then have "a = fs" using a by (simp add: boundary_def)
    moreover have "a \<le> b \<and> b \<le> fs"
      using plan_segment_props [OF assms] by blast
    moreover have "0 \<le> ?M * (?base + 1)"
      using units_nonneg [OF assms(1)] assms(2) by (simp add: pos_imp_zdiv_nonneg_iff)
    ultimately show ?thesis by simp
  qed
qed

section \<open>Properties of the planner\<close>

text \<open>
  C2 (refinement). For an input file whose size plus 1 MiB fits in an int64 and a
  positive int64 worker count, \<open>calculateSegment\<close> returns exactly the closed-form
  plan of the spec: \<open>U = ceil(size / 1 MiB)\<close> units, \<open>U div w\<close> units per worker,
  one more for the first \<open>U mod w\<close> workers, boundaries clamped to the file size.
\<close>

theorem calculateSegment_refines_plan:
  assumes "fs inputFile = Some content"
    and "int (length content) \<le> 2 ^ 63 - int oneMB"
    and "0 < numThreads" "in_i64 numThreads"
  shows "calculateSegment fs inputFile numThreads = Inr (plan (int (length content)) (nat numThreads))"
  using assms by (simp add: calculateSegment_def divideFileIntoSegments_eq_plan)

theorem calculateSegment_refines_plan_witness:
  "calculateSegment (\<lambda>p. if p = ''data.bin'' then Some [1, 2, 3, 4, 5] else None) ''data.bin'' 3
     = Inr [(0, 5), (5, 5), (5, 5)]"
proof -
  have "calculateSegment (\<lambda>p. if p = ''data.bin'' then Some [1, 2, 3, 4, 5] else None) ''data.bin'' 3
          = Inr (plan (int (length [1, 2, 3, 4, 5 :: byte])) (nat 3))"
    by (rule calculateSegment_refines_plan) (simp_all add: oneMB_def in_i64_def)
  also have "plan (int (length [1, 2, 3, 4, 5 :: byte])) (nat 3) = [(0, 5), (5, 5), (5, 5)]"
    by (simp add: plan_def units_def boundary_def unit_offset_def oneMB_def upt_rec)
  finally show ?thesis .
qed

text \<open>
  C3 (invariant). Under the same bounds, \<open>divideFileIntoSegments\<close> returns one
  segment per worker, and the segments partition \<open>[0, fileSize)\<close>: the first starts
  at 0, each ends where the next starts, none is reversed, the last ends at the size.
\<close>

theorem divideFileIntoSegments_partition:
  assumes "0 \<le> fileSize" "fileSize \<le> 2 ^ 63 - int oneMB"
    and "0 < threadCount" "in_i64 threadCount"
  shows "\<exists>segs. divideFileIntoSegments fileSize threadCount = Inr segs
           \<and> length segs = nat threadCount \<and> is_partition fileSize segs"
  using assms divideFileIntoSegments_eq_plan [OF assms] plan_is_partition [of fileSize "nat threadCount"]
  by (simp add: plan_def Let_def)

theorem divideFileIntoSegments_partition_witness:
  "\<exists>segs. divideFileIntoSegments (3 * 2 ^ 20) 3 = Inr segs \<and> length segs = nat 3
      \<and> is_partition (3 * 2 ^ 20) segs"
  by (rule divideFileIntoSegments_partition) (simp_all add: oneMB_def in_i64_def)

text \<open>
  C13 (safety). Every planned segment lies inside the file, starts and ends on a
  1 MiB boundary unless it touches the end of the file, and is empty only when it
  sits at the end of the file. These are the facts \<open>compressPart\<close> relies on:
  its reads are whole 1 MiB buffers and it stops only on an exact hit of the end
  offset. Zero-length segments do occur (more workers than units); they are all
  \<open>[fileSize, fileSize)\<close>.
\<close>

theorem divideFileIntoSegments_segment_shape:
  assumes "0 \<le> fileSize" "fileSize \<le> 2 ^ 63 - int oneMB"
    and "0 < threadCount" "in_i64 threadCount"
    and "divideFileIntoSegments fileSize threadCount = Inr segs" "(a, b) \<in> set segs"
  shows "0 \<le> a \<and> a \<le> b \<and> b \<le> fileSize
         \<and> (a = fileSize \<or> int oneMB dvd a) \<and> (b = fileSize \<or> int oneMB dvd b)
         \<and> (a = b \<longrightarrow> a = fileSize)"
proof -
  have p: "segs = plan fileSize (nat threadCount)"
    using assms(5) divideFileIntoSegments_eq_plan [OF assms(1-4)] by simp
  have w: "0 < nat threadCount" using assms(3) by simp
  have shape: "a \<le> b \<and> b \<le> fileSize \<and> (a = fileSize \<or> int oneMB dvd a)
      \<and> (b = fileSize \<or> int oneMB dvd b) \<and> (a = b \<longrightarrow> a = fileSize)"
    using plan_segment_props [OF assms(1) w] assms(6) p by blast
  have "0 \<le> a"
    using plan_memberD [of a b fileSize "nat threadCount"] assms(1,6) p w units_nonneg [OF assms(1)]
    by (auto simp: boundary_def unit_offset_def pos_imp_zdiv_nonneg_iff)
  with shape show ?thesis by blast
qed

theorem divideFileIntoSegments_segment_shape_witness:
  "divideFileIntoSegments 5 3 = Inr [(0, 5), (5, 5), (5, 5)] \<and> (0::int) \<le> 5 \<and> (5::int) \<le> 5"
proof -
  have eq: "divideFileIntoSegments 5 3 = Inr [(0, 5), (5, 5), (5, 5)]"
  proof -
    have "divideFileIntoSegments 5 3 = Inr (plan 5 (nat 3))"
      by (rule divideFileIntoSegments_eq_plan) (simp_all add: oneMB_def in_i64_def)
    also have "plan 5 (nat 3) = [(0, 5), (5, 5), (5, 5)]"
      by (simp add: plan_def units_def boundary_def unit_offset_def oneMB_def upt_rec)
    finally show ?thesis .
  qed
  have "0 \<le> (5::int) \<and> 5 \<le> (5::int) \<and> 5 \<le> (5::int)
        \<and> ((5::int) = 5 \<or> int oneMB dvd 5) \<and> ((5::int) = 5 \<or> int oneMB dvd 5)
        \<and> ((5::int) = 5 \<longrightarrow> (5::int) = 5)"
    by (rule divideFileIntoSegments_segment_shape [OF _ _ _ _ eq]) (simp_all add: oneMB_def in_i64_def)
  with eq show ?thesis by blast
qed

text \<open>
  C20 (bounds). The segments are balanced: none is longer than one unit above the
  base share \<open>U div w\<close>, and a segment that ends before the end of the file is at
  least the base share long.
\<close>

theorem divideFileIntoSegments_balanced:
  assumes "0 \<le> fileSize" "fileSize \<le> 2 ^ 63 - int oneMB"
    and "0 < threadCount" "in_i64 threadCount"
    and "divideFileIntoSegments fileSize threadCount = Inr segs" "(a, b) \<in> set segs"
  shows "b - a \<le> int oneMB * (units fileSize div threadCount + 1)
         \<and> (b < fileSize \<longrightarrow> int oneMB * (units fileSize div threadCount) \<le> b - a)"
proof -
  have p: "segs = plan fileSize (nat threadCount)"
    using assms(5) divideFileIntoSegments_eq_plan [OF assms(1-4)] by simp
  have w: "0 < nat threadCount" using assms(3) by simp
  show ?thesis
    using plan_segment_length [OF assms(1) w] assms(3,6) p by simp
qed

theorem divideFileIntoSegments_balanced_witness:
  "divideFileIntoSegments (7 * 2 ^ 20 + 5) 3
     = Inr [(0, 3 * 2 ^ 20), (3 * 2 ^ 20, 6 * 2 ^ 20), (6 * 2 ^ 20, 7 * 2 ^ 20 + 5)]
   \<and> (7 * 2 ^ 20 + 5) - 6 * 2 ^ 20 \<le> int oneMB * (units (7 * 2 ^ 20 + 5) div 3 + 1)"
proof -
  have eq: "divideFileIntoSegments (7 * 2 ^ 20 + 5) 3
     = Inr [(0, 3 * 2 ^ 20), (3 * 2 ^ 20, 6 * 2 ^ 20), (6 * 2 ^ 20, 7 * 2 ^ 20 + 5)]"
  proof -
    have "divideFileIntoSegments (7 * 2 ^ 20 + 5) 3 = Inr (plan (7 * 2 ^ 20 + 5) (nat 3))"
      by (rule divideFileIntoSegments_eq_plan) (simp_all add: oneMB_def in_i64_def)
    also have "plan (7 * 2 ^ 20 + 5) (nat 3)
        = [(0, 3 * 2 ^ 20), (3 * 2 ^ 20, 6 * 2 ^ 20), (6 * 2 ^ 20, 7 * 2 ^ 20 + 5)]"
      by (simp add: plan_def units_def boundary_def unit_offset_def oneMB_def upt_rec)
    finally show ?thesis .
  qed
  have "(7 * 2 ^ 20 + 5) - 6 * 2 ^ 20 \<le> int oneMB * (units (7 * 2 ^ 20 + 5) div 3 + 1)
   \<and> ((7 * 2 ^ 20 + 5 :: int) < 7 * 2 ^ 20 + 5 \<longrightarrow>
        int oneMB * (units (7 * 2 ^ 20 + 5) div 3) \<le> (7 * 2 ^ 20 + 5) - 6 * 2 ^ 20)"
    by (rule divideFileIntoSegments_balanced [OF _ _ _ _ eq]) (simp_all add: oneMB_def in_i64_def)
  with eq show ?thesis by blast
qed

text \<open>
  C21 (error). A worker count of zero is Go's integer-divide-by-zero panic; a negative
  one runs the loop zero times and returns no segments.
\<close>

theorem divideFileIntoSegments_nonpositive:
  "threadCount \<le> 0 \<Longrightarrow> divideFileIntoSegments fileSize threadCount
     = (if threadCount = 0 then Inl DivideByZero else Inr [])"
  by (simp add: divideFileIntoSegments_def Let_def)

theorem divideFileIntoSegments_nonpositive_witness:
  "divideFileIntoSegments 5 (- 1) = Inr [] \<and> divideFileIntoSegments 5 0 = Inl DivideByZero"
  using divideFileIntoSegments_nonpositive [of "- 1" 5] divideFileIntoSegments_nonpositive [of 0 5]
  by simp


end
