(* ===== verification/Go_Strings.thy ===== *)
theory Go_Strings
  imports Go_Prelude
begin

text \<open>
  The Go library string functions the pipeline uses to name and find its segment
  files: \<open>fmt\<close>'s \<open>%d\<close> (\<open>go_itoa\<close>), \<open>filepath.Base\<close> on Unix paths
  (\<open>go_base\<close>), \<open>strings.SplitN(s, sep, 2)\<close> for a one-character separator
  (\<open>splitN2\<close>) and \<open>strconv.Atoi\<close> on a 64-bit platform (\<open>go_atoi\<close>). They are
  modelled from the library's documented behaviour, since the library is not part
  of the repository. The name of a segment file, built by \<open>compressPart\<close> with
  \<^verbatim>\<open>fmt.Sprintf("%d-%s-output-segment.part%d", ...)\<close>, is \<open>segment_file_name\<close>;
  the round trip of index and name is proved here.
\<close>

section \<open>Definitions\<close>

text \<open>The digit table of \<open>strconv\<close>'s formatting.\<close>

definition digit_char :: "nat \<Rightarrow> char" where
  "digit_char d = ''0123456789'' ! d"

fun nat_digits :: "nat \<Rightarrow> string" where
  "nat_digits n = (if n < 10 then [digit_char n] else nat_digits (n div 10) @ [digit_char (n mod 10)])"

declare nat_digits.simps [simp del]

definition go_itoa :: "int \<Rightarrow> string" where
  "go_itoa i = (if i < 0 then CHR ''-'' # nat_digits (nat (- i)) else nat_digits (nat i))"

definition is_digit :: "char \<Rightarrow> bool" where
  "is_digit c \<longleftrightarrow> 48 \<le> (of_char c :: nat) \<and> (of_char c :: nat) \<le> 57"

definition digits_value :: "string \<Rightarrow> nat" where
  "digits_value ds = foldl (\<lambda>acc c. 10 * acc + (of_char c - 48)) 0 ds"

text \<open>
  \<open>strconv.Atoi\<close>: an optional sign, then one or more decimal digits, and a value
  in the int64 range; anything else is an error (\<open>None\<close>).
\<close>

definition go_atoi :: "string \<Rightarrow> int option" where
  "go_atoi s =
     (let (neg, ds) = (if s \<noteq> [] \<and> hd s = CHR ''-'' then (True, tl s)
                       else if s \<noteq> [] \<and> hd s = CHR ''+'' then (False, tl s)
                       else (False, s))
      in if ds = [] \<or> \<not> list_all is_digit ds then None
         else let v = int (digits_value ds); x = (if neg then - v else v)
              in if in_i64 x then Some x else None)"

text \<open>
  \<open>filepath.Base\<close> on Unix: \<open>"."\<close> for the empty path, trailing slashes dropped,
  then what follows the last slash, \<open>"/"\<close> if nothing is left.
\<close>

definition go_base :: "string \<Rightarrow> string" where
  "go_base p =
     (if p = [] then ''.''
      else let q = rev (dropWhile (\<lambda>c. c = CHR ''/'') (rev p));
               r = rev (takeWhile (\<lambda>c. c \<noteq> CHR ''/'') (rev q))
           in if r = [] then ''/'' else r)"

text \<open>\<open>strings.SplitN(s, sep, 2)\<close> for a separator of one character.\<close>

definition splitN2 :: "char \<Rightarrow> string \<Rightarrow> string list" where
  "splitN2 sep s =
     (if sep \<in> set s then [takeWhile (\<lambda>c. c \<noteq> sep) s, tl (dropWhile (\<lambda>c. c \<noteq> sep) s)]
      else [s])"

definition segment_file_name :: "int \<Rightarrow> string \<Rightarrow> string" where
  "segment_file_name segmentIndex inputFile =
     go_itoa segmentIndex @ ''-'' @ go_base inputFile @ ''-output-segment.part'' @ go_itoa segmentIndex"

section \<open>Lemmas\<close>

lemma of_char_digit_char [simp]: "d < 10 \<Longrightarrow> (of_char (digit_char d) :: nat) = 48 + d"
  by (auto simp: digit_char_def less_Suc_eq numeral_eq_Suc)

lemma is_digit_digit_char [simp]: "d < 10 \<Longrightarrow> is_digit (digit_char d)"
  by (simp add: is_digit_def)

lemma digit_char_neq: "d < 10 \<Longrightarrow> (of_char c :: nat) < 48 \<Longrightarrow> digit_char d \<noteq> c"
proof
  assume "d < 10" "(of_char c :: nat) < 48" "digit_char d = c"
  then have "(of_char c :: nat) = 48 + d" by (metis of_char_digit_char)
  with \<open>(of_char c :: nat) < 48\<close> show False by simp
qed

lemma digit_char_not_sign [simp]:
  "d < 10 \<Longrightarrow> digit_char d \<noteq> CHR ''-''" "d < 10 \<Longrightarrow> digit_char d \<noteq> CHR ''+''"
  "d < 10 \<Longrightarrow> digit_char d \<noteq> CHR ''/''"
  by (simp_all add: digit_char_neq)

lemma nat_digits_ne [simp]: "nat_digits n \<noteq> []"
  by (subst nat_digits.simps) simp

lemma nat_digits_all_digits: "list_all is_digit (nat_digits n)"
proof (induction n rule: nat_digits.induct)
  case (1 n)
  then show ?case
    by (subst nat_digits.simps) simp
qed

lemma set_nat_digits: "set (nat_digits n) \<subseteq> digit_char ` {..<10}"
proof (induction n rule: nat_digits.induct)
  case (1 n)
  then show ?case
    by (cases "n < 10") (auto simp: nat_digits.simps [of n])
qed

lemma digits_value_append_digit:
  "d < 10 \<Longrightarrow> digits_value (ds @ [digit_char d]) = 10 * digits_value ds + d"
  by (simp add: digits_value_def)

lemma digits_value_nat_digits [simp]: "digits_value (nat_digits n) = n"
proof (induction n rule: nat_digits.induct)
  case (1 n)
  then show ?case
    by (cases "n < 10") (simp_all add: nat_digits.simps [of n] digits_value_def)
qed

lemma hd_nat_digits: "\<exists>d<10. hd (nat_digits n) = digit_char d"
  using set_nat_digits [of n] hd_in_set [OF nat_digits_ne [of n]] by blast

lemma low_char_notin_nat_digits:
  assumes "(of_char c :: nat) < 48"
  shows "c \<notin> set (nat_digits n)"
proof
  assume "c \<in> set (nat_digits n)"
  then obtain d where "d < 10" "c = digit_char d"
    using set_nat_digits [of n] by blast
  with assms digit_char_neq show False by blast
qed

lemma dash_notin_nat_digits [simp]: "CHR ''-'' \<notin> set (nat_digits n)"
  by (rule low_char_notin_nat_digits) simp

lemma slash_notin_nat_digits [simp]: "CHR ''/'' \<notin> set (nat_digits n)"
  by (rule low_char_notin_nat_digits) simp

lemma go_atoi_go_itoa [simp]: "in_i64 i \<Longrightarrow> go_atoi (go_itoa i) = Some i"
proof (cases "i < 0")
  case True
  assume "in_i64 i"
  with True show ?thesis
    by (simp add: go_atoi_def go_itoa_def nat_digits_all_digits)
next
  case False
  assume "in_i64 i"
  obtain d where d: "d < 10" "hd (nat_digits (nat i)) = digit_char d"
    using hd_nat_digits by blast
  with False \<open>in_i64 i\<close> show ?thesis
    by (simp add: go_atoi_def go_itoa_def nat_digits_all_digits)
qed

lemma go_base_no_slash: "s \<noteq> [] \<Longrightarrow> CHR ''/'' \<notin> set s \<Longrightarrow> go_base s = s"
proof -
  assume ne: "s \<noteq> []" and ns: "CHR ''/'' \<notin> set s"
  have d: "dropWhile (\<lambda>c. c = CHR ''/'') (rev s) = rev s"
    using ne ns by (cases "rev s") auto
  have t: "takeWhile (\<lambda>c. c \<noteq> CHR ''/'') (rev s) = rev s"
    using ns by (auto simp: takeWhile_eq_all_conv)
  show ?thesis
    using ne by (simp add: go_base_def Let_def d t del: takeWhile_eq_all_conv)
qed

lemma go_base_shape: "CHR ''/'' \<notin> set (go_base p) \<or> go_base p = ''/''"
  by (auto simp: go_base_def Let_def dest: set_takeWhileD)

lemma go_base_ne: "go_base p \<noteq> []"
  by (simp add: go_base_def Let_def)

lemma splitN2_first:
  "sep \<notin> set a \<Longrightarrow> splitN2 sep (a @ sep # b) = [a, b]"
  by (simp add: splitN2_def takeWhile_append dropWhile_append)

lemma dash_notin_go_itoa: "0 \<le> i \<Longrightarrow> CHR ''-'' \<notin> set (go_itoa i)"
  by (simp add: go_itoa_def)

lemma go_base_slash_only:
  assumes "go_base p = ''/''"
  shows "set p \<subseteq> {CHR ''/''}"
proof -
  have "p \<noteq> []" using assms by (auto simp: go_base_def)
  define q where "q = dropWhile (\<lambda>c. c = CHR ''/'') (rev p)"
  have nt: "CHR ''/'' \<notin> set (takeWhile (\<lambda>c. c \<noteq> CHR ''/'') q)"
    by (auto dest: set_takeWhileD)
  have "rev (takeWhile (\<lambda>c. c \<noteq> CHR ''/'') q) = [] \<or> rev (takeWhile (\<lambda>c. c \<noteq> CHR ''/'') q) = ''/''"
    using assms \<open>p \<noteq> []\<close> by (simp add: go_base_def Let_def q_def split: if_splits)
  then have r: "takeWhile (\<lambda>c. c \<noteq> CHR ''/'') q = []"
    using nt by (metis list.set_intros(1) set_rev rev_is_Nil_conv)
  have "q = []"
  proof (rule ccontr)
    assume "q \<noteq> []"
    then have "hd q \<noteq> CHR ''/''"
      using hd_dropWhile [of "\<lambda>c. c = CHR ''/''" "rev p"] by (simp add: q_def)
    with \<open>q \<noteq> []\<close> r show False by (cases q) auto
  qed
  then show ?thesis by (auto simp: q_def dropWhile_eq_Nil_conv)
qed

lemma hd_go_itoa: "hd (go_itoa i) \<noteq> CHR ''/''"
proof -
  obtain d where "d < 10" "hd (nat_digits (nat i)) = digit_char d"
    using hd_nat_digits by blast
  then show ?thesis by (simp add: go_itoa_def)
qed

lemma go_itoa_ne [simp]: "go_itoa i \<noteq> []"
  by (simp add: go_itoa_def)

lemma slash_notin_go_itoa [simp]: "CHR ''/'' \<notin> set (go_itoa i)"
  by (simp add: go_itoa_def)

lemma segment_file_name_neq: "segment_file_name i f \<noteq> f"
proof
  assume eq: "segment_file_name i f = f"
  consider (noslash) "CHR ''/'' \<notin> set (go_base f)" | (root) "go_base f = ''/''"
    using go_base_shape by blast
  then show False
  proof cases
    case noslash
    then have "CHR ''/'' \<notin> set (segment_file_name i f)" by (simp add: segment_file_name_def)
    then have "CHR ''/'' \<notin> set f" using eq by simp
    moreover have "segment_file_name i f \<noteq> []" by (simp add: segment_file_name_def)
    then have "f \<noteq> []" using eq by simp
    ultimately have "go_base f = f" by (rule go_base_no_slash [rotated])
    then have "length f < length (segment_file_name i f)"
      by (simp add: segment_file_name_def)
    with eq show False by simp
  next
    case root
    have ne: "segment_file_name i f \<noteq> []" by (simp add: segment_file_name_def)
    have "hd (segment_file_name i f) \<in> set f"
      using eq hd_in_set [OF ne] by simp
    then have "hd (segment_file_name i f) = CHR ''/''" using go_base_slash_only [OF root] by auto
    then show False using hd_go_itoa [of i] by (simp add: segment_file_name_def)
  qed
qed

end
