(* ===== verification/Codec.thy ===== *)
theory Codec
  imports Go_Prelude
begin

text \<open>
  The Codec Adapter. The zstd engine (\<^verbatim>\<open>github.com/klauspost/compress/zstd\<close>) is a
  library: the pipeline calls \<open>encoder.EncodeAll(chunk, nil)\<close>, which returns one
  complete frame, and reads a multi-frame stream back with \<open>zstd.NewReader\<close>. The
  model takes the engine as a pair of functions \<open>enc\<close> and \<open>dec\<close> and states the
  one property the pipeline relies on, the framing law \<open>frame_law\<close>: decoding the
  concatenation of independently encoded frames gives the concatenation of the
  inputs. The component theorems assume it of their codec parameter.

  \<open>encode_frame\<close>/\<open>decode_frames\<close> is a concrete codec with that law, modelled on
  zstd's framing (a magic number, then a length and the stored bytes; the length is
  a LEB128 varint here): it shows the law is satisfiable and lets the witnesses
  evaluate. \<open>compressStream\<close> and \<open>decompressFile\<close> are the stream-mode functions
  of \<^verbatim>\<open>main.go\<close> over such a codec.
\<close>

section \<open>The interface\<close>

definition frame_law :: "(bytes \<Rightarrow> bytes) \<Rightarrow> (bytes \<Rightarrow> bytes option) \<Rightarrow> bool" where
  "frame_law enc dec \<longleftrightarrow> (\<forall>cs. dec (concat (map enc cs)) = Some (concat cs))"

section \<open>A stored-frame codec\<close>

definition zstd_magic :: bytes where
  "zstd_magic = [0x28, 0xB5, 0x2F, 0xFD]"

fun varint :: "nat \<Rightarrow> bytes" where
  "varint n = (if n < 128 then [word_of_nat n] else word_of_nat (n mod 128 + 128) # varint (n div 128))"

declare varint.simps [simp del]

text \<open>A decoded varint: its value and the number of bytes it took.\<close>

fun varint_dec :: "bytes \<Rightarrow> (nat \<times> nat) option" where
  "varint_dec [] = None"
| "varint_dec (b # bs) =
     (if unat b < 128 then Some (unat b, 1)
      else map_option (\<lambda>(n, k). (unat b - 128 + 128 * n, Suc k)) (varint_dec bs))"

definition encode_frame :: "bytes \<Rightarrow> bytes" where
  "encode_frame chunk = zstd_magic @ varint (length chunk) @ chunk"

function decode_frames :: "bytes \<Rightarrow> bytes option" where
  "decode_frames bs =
     (if bs = [] then Some []
      else if take 4 bs \<noteq> zstd_magic then None
      else case varint_dec (drop 4 bs) of
             None \<Rightarrow> None
           | Some (n, k) \<Rightarrow>
               let body = drop (4 + k) bs
               in if length body < n then None
                  else map_option (\<lambda>tail. take n body @ tail) (decode_frames (drop (4 + k + n) bs)))"
  by pat_completeness auto
termination
  by (relation "measure length") auto

declare decode_frames.simps [simp del]

section \<open>Stream mode of main.go\<close>

text \<open>\<open>compressStream\<close>: the streaming encoder writes the whole input as frames.\<close>

definition compressStream :: "(bytes \<Rightarrow> bytes) \<Rightarrow> bytes \<Rightarrow> bytes" where
  "compressStream enc input = enc input"

definition decompressFile :: "(bytes \<Rightarrow> bytes option) \<Rightarrow> bytes \<Rightarrow> failure + bytes" where
  "decompressFile dec input = (case dec input of None \<Rightarrow> Inl DecodeFailed | Some out \<Rightarrow> Inr out)"

section \<open>Lemmas\<close>

lemma unat_word_of_nat_small [simp]: "n < 256 \<Longrightarrow> unat (word_of_nat n :: byte) = n"
  by (simp add: unat_of_nat)

lemma varint_dec_varint [simp]: "varint_dec (varint n @ rest) = Some (n, length (varint n))"
proof (induction n rule: varint.induct)
  case (1 n)
  show ?case
  proof (cases "n < 128")
    case True
    then show ?thesis by (simp add: varint.simps [of n])
  next
    case False
    have u: "unat (word_of_nat (n mod 128 + 128) :: byte) = n mod 128 + 128"
      by (simp add: unat_of_nat del: of_nat_add)
    from False have v: "varint n = word_of_nat (n mod 128 + 128) # varint (n div 128)"
      by (simp add: varint.simps [of n] del: of_nat_add)
    with False "1.IH" u show ?thesis
      by (simp del: of_nat_add)
  qed
qed

lemma decode_frames_Nil [simp]: "decode_frames [] = Some []"
  by (simp add: decode_frames.simps)

lemma varint_ne [simp]: "varint n \<noteq> []"
  by (simp add: varint.simps [of n])

lemma decode_frames_Cons_frame:
  "decode_frames (encode_frame c @ rest) = map_option ((@) c) (decode_frames rest)"
proof -
  have ne: "encode_frame c @ rest \<noteq> []" by (simp add: encode_frame_def zstd_magic_def)
  have magic: "take 4 (encode_frame c @ rest) = zstd_magic" by (simp add: encode_frame_def zstd_magic_def)
  have body: "drop 4 (encode_frame c @ rest) = varint (length c) @ c @ rest"
    by (simp add: encode_frame_def zstd_magic_def)
  have four: "4 + k = Suc (Suc (Suc (Suc k)))" for k :: nat
    by simp
  have body2: "drop (4 + length (varint (length c))) (encode_frame c @ rest) = c @ rest"
    by (simp add: encode_frame_def zstd_magic_def four)
  have rest_eq: "drop (4 + length (varint (length c)) + length c) (encode_frame c @ rest) = rest"
    by (simp add: encode_frame_def zstd_magic_def four)
  have "decode_frames (encode_frame c @ rest)
      = (let body = drop (4 + length (varint (length c))) (encode_frame c @ rest)
         in if length body < length c then None
            else map_option (\<lambda>tail. take (length c) body @ tail)
                   (decode_frames (drop (4 + length (varint (length c)) + length c) (encode_frame c @ rest))))"
    by (subst decode_frames.simps) (simp only: ne magic body varint_dec_varint if_False simp_thms option.case prod.case)
  also have "\<dots> = map_option ((@) c) (decode_frames rest)"
    by (simp only: body2 rest_eq Let_def) simp
  finally show ?thesis .
qed

lemma stored_frames_law: "frame_law encode_frame decode_frames"
  unfolding frame_law_def
proof
  fix cs
  show "decode_frames (concat (map encode_frame cs)) = Some (concat cs)"
    by (induction cs) (simp_all add: decode_frames_Cons_frame)
qed

end
