(* ===== verification/Segment_Worker.thy ===== *)
theory Segment_Worker
  imports Go_Strings Codec
begin

text \<open>
  The Segment Worker: \<open>compressPart\<close> of \<^verbatim>\<open>src/unnamed/part_000\<close>. It opens the
  input file, creates the segment file \<open>segment_file_name i inputFile\<close>, seeks to
  the start offset and loops: read up to 1 MiB, encode the bytes read as one frame,
  append the frame to the segment file, and stop at end of file, on an exact hit of
  the end offset, or panic once the offset is past it.

  The operating system's reads are a parameter \<open>rd :: reader\<close>: at offset \<open>p\<close> a
  read returns at most \<open>k\<close> bytes when \<open>rd p = Some k\<close> (and never more than is
  left in the file), and fails when \<open>rd p = None\<close>. A regular file read with a
  1 MiB buffer is \<open>const_reads oneMB\<close>; smaller constants model short reads. The
  loop is \<open>part_loop\<close>, a \<^theory_text>\<open>function\<close> whose termination measure is the
  number of bytes left after the read position. Its result is the outcome
  (\<open>None\<close> for a normal end) and the bytes written so far, which stay in the
  segment file whatever the outcome.
\<close>

section \<open>The code\<close>

type_synonym reader = "nat \<Rightarrow> nat option"

definition const_reads :: "nat \<Rightarrow> reader" where
  "const_reads k = (\<lambda>_. Some k)"

function part_loop ::
  "reader \<Rightarrow> (bytes \<Rightarrow> bytes) \<Rightarrow> bytes \<Rightarrow> int \<Rightarrow> nat \<Rightarrow> bytes \<Rightarrow> failure option \<times> bytes" where
  "part_loop rd enc content endOffset pos written =
     (case rd pos of
        None \<Rightarrow> (Some ReadFailed, written)
      | Some k \<Rightarrow>
          let n = min (min k oneMB) (length content - pos)
          in if n = 0 then (None, written)
             else let written' = written @ enc (take n (drop pos content));
                      currentOffset = int (pos + n)
                  in if currentOffset = endOffset then (None, written')
                     else if endOffset < currentOffset then (Some ReadOverEnd, written')
                     else part_loop rd enc content endOffset (pos + n) written')"
  by pat_completeness auto
termination
  by (relation "measure (\<lambda>(rd, enc, content, endOffset, pos, written). length content - pos)")
    (auto simp: min_def oneMB_def)

declare part_loop.simps [simp del]

text \<open>
  \<open>os.Open\<close> fails when the input does not exist; \<open>os.Create\<close> truncates the
  segment file (the handle on the input sees that truncation if both are the same
  path); a negative start offset makes \<open>Seek\<close> fail, and since its error is
  ignored the read starts at offset 0.
\<close>

definition compressPart ::
  "reader \<Rightarrow> (bytes \<Rightarrow> bytes) \<Rightarrow> fsys \<Rightarrow> string \<Rightarrow> int \<Rightarrow> int \<times> int \<Rightarrow> (failure + string) \<times> fsys" where
  "compressPart rd enc fs inputFile segmentIndex offset =
     (case fs inputFile of
        None \<Rightarrow> (Inl (OpenFailed inputFile), fs)
      | Some content \<Rightarrow>
          let outputFile = segment_file_name segmentIndex inputFile;
              content' = (if outputFile = inputFile then [] else content);
              startOffset = fst offset;
              endOffset = snd offset;
              pos = (if startOffset < 0 then 0 else nat startOffset);
              (res, written) = part_loop rd enc content' endOffset pos []
          in ((case res of None \<Rightarrow> Inr outputFile | Some e \<Rightarrow> Inl e), fs(outputFile \<mapsto> written)))"

text \<open>
  What a worker does given the input's contents: its outcome and the bytes of its
  segment file. It does not depend on any other file.
\<close>

definition part_result ::
  "reader \<Rightarrow> (bytes \<Rightarrow> bytes) \<Rightarrow> bytes \<Rightarrow> string \<Rightarrow> int \<Rightarrow> int \<times> int \<Rightarrow> (failure + string) \<times> bytes" where
  "part_result rd enc content inputFile i offset =
     (case part_loop rd enc content (snd offset) (if fst offset < 0 then 0 else nat (fst offset)) [] of
        (res, written) \<Rightarrow> ((case res of None \<Rightarrow> Inr (segment_file_name i inputFile) | Some er \<Rightarrow> Inl er),
                           written))"

section \<open>Lemmas on the read loop\<close>

lemma part_loop_unfold:
  assumes "n = min (min k oneMB) (length content - pos)"
  shows "part_loop (const_reads k) enc content e pos acc =
    (if n = 0 then (None, acc)
     else if int (pos + n) = e then (None, acc @ enc (take n (drop pos content)))
     else if e < int (pos + n) then (Some ReadOverEnd, acc @ enc (take n (drop pos content)))
     else part_loop (const_reads k) enc content e (pos + n) (acc @ enc (take n (drop pos content))))"
  by (subst part_loop.simps) (simp only: const_reads_def option.case Let_def assms [symmetric])

lemma chunks_of_single:
  assumes "0 < length xs" "length xs \<le> k"
  shows "chunks_of k xs = [xs]"
proof -
  have "0 < k" using assms by linarith
  with assms show ?thesis by (simp add: chunks_of_Cons_eq)
qed

lemma chunks_of_first:
  assumes "length xs = k" "0 < k"
  shows "chunks_of k (xs @ ys) = xs # chunks_of k ys"
proof -
  have "xs @ ys \<noteq> []" using assms by auto
  with assms show ?thesis by (simp add: chunks_of_Cons_eq)
qed

lemma byte_range_split:
  "s + n \<le> e \<Longrightarrow> byte_range s e xs = take n (drop s xs) @ byte_range (s + n) e xs"
  using byte_range_append_byte_range [of s "s + n" e xs] by (simp add: byte_range_def)

text \<open>
  A segment is read exactly when the end offset is the end of the file or lies a
  whole number of reads after the start, and an empty segment sits at the end of
  the file: the frames written are those of the consecutive chunks of the segment.
\<close>

lemma part_loop_exact:
  assumes "0 < c" and "s \<le> e" and "e \<le> length content"
    and "e = length content \<or> min c oneMB dvd (e - s)"
    and "s = e \<longrightarrow> s = length content"
  shows "part_loop (const_reads c) enc content (int e) s acc
           = (None, acc @ concat (map enc (chunks_of (min c oneMB) (byte_range s e content))))"
  using assms(2-5)
proof (induction "length content - s" arbitrary: s acc rule: less_induct)
  case less
  define k where "k = min c oneMB"
  define n where "n = min k (length content - s)"
  have k: "0 < k" using assms(1) by (simp add: k_def)
  have unf: "part_loop (const_reads c) enc content (int e) s acc =
    (if n = 0 then (None, acc)
     else if int (s + n) = int e then (None, acc @ enc (take n (drop s content)))
     else if int e < int (s + n) then (Some ReadOverEnd, acc @ enc (take n (drop s content)))
     else part_loop (const_reads c) enc content (int e) (s + n) (acc @ enc (take n (drop s content))))"
    by (rule part_loop_unfold) (simp add: n_def k_def)
  have nk: "n \<le> k" "n \<le> length content - s" by (simp_all add: n_def)
  show ?case
  proof (cases "s = e")
    case True
    then have "n = 0" using less.prems by (simp add: n_def)
    then show ?thesis
      using True unf by (simp add: byte_range_def)
  next
    case False
    then have se: "s < e" using less.prems by simp
    then have n0: "0 < n" using less.prems k by (simp add: n_def)
    have ne: "s + n \<le> e"
    proof (cases "e = length content")
      case True
      with se nk show ?thesis by linarith
    next
      case False
      then have "k dvd (e - s)" using less.prems by (simp add: k_def)
      then have "k \<le> e - s" using se by (simp add: dvd_imp_le)
      with se nk show ?thesis by linarith
    qed
    have split: "byte_range s e content = take n (drop s content) @ byte_range (s + n) e content"
      using ne by (rule byte_range_split)
    have len: "length (take n (drop s content)) = n" using nk by simp
    show ?thesis
    proof (cases "s + n = e")
      case True
      have "byte_range (s + n) e content = []" using True by (simp add: byte_range_def)
      then have "chunks_of k (byte_range s e content) = [take n (drop s content)]"
        using split n0 len nk chunks_of_single [of "take n (drop s content)" k] by simp
      then show ?thesis
        using True n0 unf by (simp add: k_def)
    next
      case False
      then have lt: "s + n < e" using ne by simp
      have full: "n = k"
      proof (rule ccontr)
        assume "n \<noteq> k"
        then have "n = length content - s" by (simp add: n_def min_def split: if_splits)
        then show False using lt less.prems by linarith
      qed
      have pre: "e = length content \<or> k dvd (e - (s + n))"
      proof (cases "e = length content")
        case False
        then have "k dvd (e - s)" using less.prems(3) by (simp add: k_def)
        then have "k dvd ((e - s) - k)" by (rule dvd_diff_nat) simp
        moreover have "e - (s + n) = (e - s) - k" using full by simp
        ultimately show ?thesis by simp
      qed simp
      have IH: "part_loop (const_reads c) enc content (int e) (s + n) (acc @ enc (take n (drop s content)))
          = (None, (acc @ enc (take n (drop s content)))
                   @ concat (map enc (chunks_of k (byte_range (s + n) e content))))"
        using lt less.prems pre n0 unfolding k_def by (intro less.hyps) auto
      have "chunks_of k (byte_range s e content)
              = take n (drop s content) # chunks_of k (byte_range (s + n) e content)"
        using split full k len by (simp add: chunks_of_first)
      then show ?thesis
        using lt n0 IH unf by (simp add: k_def)
    qed
  qed
qed


text \<open>
  When the end offset is not a whole number of reads after the start and lies
  inside the file, some read crosses it: the frame of that read is written and the
  worker panics.
\<close>

lemma part_loop_over_read:
  assumes "0 < c" and "s < e" and "e < length content"
    and "\<not> min c oneMB dvd (e - s)"
  shows "fst (part_loop (const_reads c) enc content (int e) s acc) = Some ReadOverEnd"
  using assms(2-4)
proof (induction "length content - s" arbitrary: s acc rule: less_induct)
  case less
  define k where "k = min c oneMB"
  define n where "n = min k (length content - s)"
  have k: "0 < k" using assms(1) by (simp add: k_def)
  have unf: "part_loop (const_reads c) enc content (int e) s acc =
    (if n = 0 then (None, acc)
     else if int (s + n) = int e then (None, acc @ enc (take n (drop s content)))
     else if int e < int (s + n) then (Some ReadOverEnd, acc @ enc (take n (drop s content)))
     else part_loop (const_reads c) enc content (int e) (s + n) (acc @ enc (take n (drop s content))))"
    by (rule part_loop_unfold) (simp add: n_def k_def)
  have n0: "0 < n" using less.prems k by (simp add: n_def)
  show ?case
  proof (cases "n = k")
    case True
    have ne: "s + n \<noteq> e"
    proof
      assume "s + n = e"
      then have "e - s = k" using True by simp
      then have "k dvd (e - s)" by simp
      with less.prems(3) show False by (simp add: k_def)
    qed
    show ?thesis
    proof (cases "e < s + n")
      case True
      then show ?thesis using unf n0 by simp
    next
      case False
      with ne have lt: "s + n < e" by simp
      have "\<not> k dvd (e - (s + n))"
      proof
        assume a: "k dvd (e - (s + n))"
        have "k dvd (e - (s + n) + k)" using a by (rule dvd_add) simp
        moreover have "e - (s + n) + k = e - s" using lt True by simp
        ultimately have "k dvd (e - s)" by simp
        with less.prems(3) show False by (simp add: k_def)
      qed
      then have "fst (part_loop (const_reads c) enc content (int e) (s + n)
                  (acc @ enc (take n (drop s content)))) = Some ReadOverEnd"
        using lt less.prems n0 unfolding k_def by (intro less.hyps) auto
      then show ?thesis using unf n0 lt by simp
    qed
  next
    case False
    then have "n = length content - s" by (simp add: n_def min_def split: if_splits)
    then have "e < s + n" using less.prems by simp
    then show ?thesis using unf n0 by simp
  qed
qed

text \<open>
  When the file ends before the end offset, the worker reads to the end of the
  file and stops normally at end of file: no error reports the missing bytes.
\<close>

lemma part_loop_short_file:
  assumes "0 < c" and "length content < e"
  shows "part_loop (const_reads c) enc content (int e) s acc
           = (None, acc @ concat (map enc (chunks_of (min c oneMB) (drop s content))))"
proof (induction "length content - s" arbitrary: s acc rule: less_induct)
  case less
  define k where "k = min c oneMB"
  define n where "n = min k (length content - s)"
  have k: "0 < k" using assms(1) by (simp add: k_def)
  have unf: "part_loop (const_reads c) enc content (int e) s acc =
    (if n = 0 then (None, acc)
     else if int (s + n) = int e then (None, acc @ enc (take n (drop s content)))
     else if int e < int (s + n) then (Some ReadOverEnd, acc @ enc (take n (drop s content)))
     else part_loop (const_reads c) enc content (int e) (s + n) (acc @ enc (take n (drop s content))))"
    by (rule part_loop_unfold) (simp add: n_def k_def)
  show ?case
  proof (cases "n = 0")
    case True
    then have "drop s content = []" using k by (simp add: n_def)
    then show ?thesis using unf True by simp
  next
    case False
    then have sl: "s < length content" using k by (simp add: n_def)
    have nle: "n \<le> length content - s" by (simp add: n_def)
    then have lt: "s + n < e" using sl assms(2) by linarith
    have meas: "length content - (s + n) < length content - s" using sl False nle by linarith
    have IH: "part_loop (const_reads c) enc content (int e) (s + n) (acc @ enc (take n (drop s content)))
        = (None, (acc @ enc (take n (drop s content))) @ concat (map enc (chunks_of k (drop (s + n) content))))"
      unfolding k_def by (rule less.hyps [OF meas])
    have tk: "take k (drop s content) = take n (drop s content)"
      by (simp add: n_def min_def)
    have dr: "drop k (drop s content) = drop (s + n) content"
      using sl by (auto simp: n_def min_def add.commute)
    have "chunks_of k (drop s content) = take n (drop s content) # chunks_of k (drop (s + n) content)"
      using k sl tk dr by (simp add: chunks_of_Cons_eq)
    then show ?thesis using unf False lt IH by (simp add: k_def)
  qed
qed


section \<open>The worker\<close>

lemma compressPart_eq:
  "compressPart rd enc fs inputFile i offset =
     (case fs inputFile of
        None \<Rightarrow> (Inl (OpenFailed inputFile), fs)
      | Some content \<Rightarrow> (fst (part_result rd enc content inputFile i offset),
                         fs(segment_file_name i inputFile \<mapsto> snd (part_result rd enc content inputFile i offset))))"
  by (simp add: compressPart_def part_result_def segment_file_name_neq Let_def split: option.split prod.split)

lemma compressPart_run:
  assumes "fs inputFile = Some content" "0 \<le> s"
  shows "compressPart rd enc fs inputFile i (s, e) =
           (case part_loop rd enc content e (nat s) [] of
              (res, written) \<Rightarrow> ((case res of None \<Rightarrow> Inr (segment_file_name i inputFile) | Some er \<Rightarrow> Inl er),
                                 fs(segment_file_name i inputFile \<mapsto> written)))"
  using assms by (simp add: compressPart_def segment_file_name_neq Let_def)

lemma int_dvd_diff_nat:
  assumes "0 \<le> s" "s \<le> e"
  shows "(int k dvd (e - s)) = (k dvd (nat e - nat s))"
proof -
  have "int (nat e - nat s) = e - s" using assms by simp
  then show ?thesis by (metis int_dvd_int_iff)
qed

lemma part_result_exact:
  assumes "oneMB \<le> c" "0 \<le> s" "s \<le> e" "e \<le> int (length content)"
    and "e = int (length content) \<or> int oneMB dvd (e - s)"
    and "s = e \<longrightarrow> s = int (length content)"
  shows "part_result (const_reads c) enc content inputFile i (s, e) =
           (Inr (segment_file_name i inputFile),
            concat (map enc (chunks_of oneMB (byte_range (nat s) (nat e) content))))"
proof -
  have c: "0 < c" "min c oneMB = oneMB" using assms(1) oneMB_pos by linarith+
  have e: "int (nat e) = e" using assms(2,3) by simp
  have shape: "nat e = length content \<or> min c oneMB dvd (nat e - nat s)"
    using assms(2-5) c(2) int_dvd_diff_nat [of s e oneMB] by auto
  have le: "nat s \<le> nat e" "nat e \<le> length content"
    using assms(2-4) by linarith+
  have empty: "nat s = nat e \<longrightarrow> nat s = length content"
    using assms(2,3,6) by (auto simp: eq_nat_nat_iff)
  have "part_loop (const_reads c) enc content (int (nat e)) (nat s) []
      = (None, [] @ concat (map enc (chunks_of (min c oneMB) (byte_range (nat s) (nat e) content))))"
    using c(1) le shape empty by (rule part_loop_exact)
  then have loop: "part_loop (const_reads c) enc content e (nat s) []
      = (None, concat (map enc (chunks_of oneMB (byte_range (nat s) (nat e) content))))"
    using c(2) e by simp
  show ?thesis
    using assms(2) loop by (simp add: part_result_def)
qed

text \<open>
  C4 (functional). With whole reads (a regular file: every read fills the 1 MiB
  buffer while data remains), a worker given a segment of the planner's shape
  succeeds, returns its segment file's name, and that file holds exactly the
  frames of the segment's consecutive 1 MiB chunks; no other file changes.
\<close>

theorem compressPart_exact:
  assumes "fs inputFile = Some content"
    and "oneMB \<le> c" "0 \<le> s" "s \<le> e" "e \<le> int (length content)"
    and "e = int (length content) \<or> int oneMB dvd (e - s)"
    and "s = e \<longrightarrow> s = int (length content)"
  shows "compressPart (const_reads c) enc fs inputFile i (s, e) =
           (Inr (segment_file_name i inputFile),
            fs(segment_file_name i inputFile \<mapsto>
               concat (map enc (chunks_of oneMB (byte_range (nat s) (nat e) content)))))"
  using compressPart_eq [of "const_reads c" enc fs inputFile i "(s, e)"] assms(1)
    part_result_exact [OF assms(2-7), of enc inputFile i]
  by simp

theorem compressPart_exact_witness:
  "compressPart (const_reads oneMB) encode_frame [''in'' \<mapsto> [1, 2, 3, 4, 5]] ''in'' 0 (0, 5) =
     (Inr ''0-in-output-segment.part0'',
      [''in'' \<mapsto> [1, 2, 3, 4, 5], ''0-in-output-segment.part0'' \<mapsto> encode_frame [1, 2, 3, 4, 5]])"
proof -
  have name: "segment_file_name 0 ''in'' = ''0-in-output-segment.part0''"
    by (simp add: segment_file_name_def go_itoa_def nat_digits.simps digit_char_def go_base_def)
  have "compressPart (const_reads oneMB) encode_frame [''in'' \<mapsto> [1, 2, 3, 4, 5]] ''in'' 0 (0, 5) =
     (Inr (segment_file_name 0 ''in''),
      [''in'' \<mapsto> [1, 2, 3, 4, 5]](segment_file_name 0 ''in'' \<mapsto>
        concat (map encode_frame (chunks_of oneMB (byte_range (nat 0) (nat 5) [1, 2, 3, 4, 5])))))"
    by (rule compressPart_exact) (simp_all add: name)
  moreover have "chunks_of oneMB (byte_range (nat 0) (nat 5) [1, 2, 3, 4, 5 :: byte]) = [[1, 2, 3, 4, 5]]"
    by (simp add: byte_range_def chunks_of_single oneMB_def)
  ultimately show ?thesis by (simp only: name list.map concat.simps append_Nil2)
qed

text \<open>
  C14 (error). When the segment's length is not a whole number of reads and its
  end lies inside the file, the worker does not stop at the end offset: the read
  that crosses it is encoded and written, and the worker panics with "I read over
  the endOffset". The spec asks for the read to be cut at the end offset.
\<close>

theorem compressPart_over_read:
  assumes "fs inputFile = Some content" "0 < c" "0 \<le> s" "s < e" "e < int (length content)"
    and "\<not> int (min c oneMB) dvd (e - s)"
  shows "fst (compressPart (const_reads c) enc fs inputFile i (s, e)) = Inl ReadOverEnd"
proof -
  have e: "int (nat e) = e" using assms(3,4) by simp
  have "fst (part_loop (const_reads c) enc content (int (nat e)) (nat s) []) = Some ReadOverEnd"
    using assms(2-6) int_dvd_diff_nat [of s e "min c oneMB"] by (intro part_loop_over_read) auto
  then obtain w where "part_loop (const_reads c) enc content e (nat s) [] = (Some ReadOverEnd, w)"
    using e by (cases "part_loop (const_reads c) enc content e (nat s) []") simp
  then show ?thesis
    using compressPart_run [where fs = fs and inputFile = inputFile and content = content
        and i = i and s = s and rd = "const_reads c" and enc = enc and e = e, OF assms(1,3)] e
    by (simp split: prod.split)
qed

theorem compressPart_over_read_witness:
  "fst (compressPart (const_reads 2) encode_frame [''in'' \<mapsto> [1, 2, 3, 4, 5]] ''in'' 0 (0, 3)) = Inl ReadOverEnd"
  using compressPart_over_read [where fs = "[''in'' \<mapsto> [1, 2, 3, 4, 5]]" and inputFile = "''in''"
      and content = "[1, 2, 3, 4, 5]" and c = 2 and s = 0 and e = 3 and enc = encode_frame and i = 0]
  by (simp add: oneMB_def)

text \<open>
  C15 (error). When the input file ends before the segment's end offset (the file
  shrank after it was measured), the read at end of file returns zero bytes and the
  worker stops as if the segment were complete: it reports success and its segment
  file holds the frames of what was left. The spec asks for a short-read error.
\<close>

theorem compressPart_short_file:
  assumes "fs inputFile = Some content" "0 < c" "0 \<le> s" "int (length content) < e"
  shows "compressPart (const_reads c) enc fs inputFile i (s, e) =
           (Inr (segment_file_name i inputFile),
            fs(segment_file_name i inputFile \<mapsto>
               concat (map enc (chunks_of (min c oneMB) (drop (nat s) content)))))"
proof -
  have e: "int (nat e) = e" using assms(4) by simp
  have "part_loop (const_reads c) enc content (int (nat e)) (nat s) []
      = (None, [] @ concat (map enc (chunks_of (min c oneMB) (drop (nat s) content))))"
    using assms(2,4) by (intro part_loop_short_file) auto
  then show ?thesis
    using compressPart_run [where fs = fs and inputFile = inputFile and content = content
        and i = i and s = s and rd = "const_reads c" and enc = enc and e = e, OF assms(1,3)] e
    by simp
qed

theorem compressPart_short_file_witness:
  "compressPart (const_reads oneMB) encode_frame [''in'' \<mapsto> [1, 2, 3]] ''in'' 0 (0, 5) =
     (Inr (segment_file_name 0 ''in''),
      [''in'' \<mapsto> [1, 2, 3]](segment_file_name 0 ''in'' \<mapsto> encode_frame [1, 2, 3]))"
proof -
  have "compressPart (const_reads oneMB) encode_frame [''in'' \<mapsto> [1, 2, 3]] ''in'' 0 (0, 5) =
     (Inr (segment_file_name 0 ''in''),
      [''in'' \<mapsto> [1, 2, 3]](segment_file_name 0 ''in'' \<mapsto>
        concat (map encode_frame (chunks_of (min oneMB oneMB) (drop (nat 0) [1, 2, 3])))))"
    by (rule compressPart_short_file) simp_all
  moreover have "chunks_of (min oneMB oneMB) (drop (nat 0) [1, 2, 3 :: byte]) = [[1, 2, 3]]"
    by (simp add: chunks_of_single oneMB_def)
  ultimately show ?thesis by (simp only: list.map concat.simps append_Nil2)
qed

text \<open>
  C19 (error). A failing read ends the worker with the read error, and the segment
  file it created stays behind, empty, in the file system.
\<close>

theorem compressPart_read_failed:
  assumes "fs inputFile = Some content" "0 \<le> s" "rd (nat s) = None"
  shows "compressPart rd enc fs inputFile i (s, e) =
           (Inl ReadFailed, fs(segment_file_name i inputFile \<mapsto> []))"
proof -
  have "part_loop rd enc content e (nat s) [] = (Some ReadFailed, [])"
    using assms(3) by (subst part_loop.simps) simp
  then show ?thesis
    using compressPart_run [where fs = fs and inputFile = inputFile and content = content
        and i = i and s = s and rd = rd and enc = enc and e = e, OF assms(1,2)]
    by simp
qed

theorem compressPart_read_failed_witness:
  "compressPart (\<lambda>_. None) encode_frame [''in'' \<mapsto> [1, 2, 3]] ''in'' 0 (0, 3) =
     (Inl ReadFailed, [''in'' \<mapsto> [1, 2, 3]](segment_file_name 0 ''in'' \<mapsto> []))"
  by (rule compressPart_read_failed) simp_all

lemma part_result_Inr:
  "fst (part_result rd enc content f i off) = Inr x \<Longrightarrow> x = segment_file_name i f"
  by (auto simp: part_result_def split: prod.splits option.splits)

end
