(* ===== verification/Reassembler.thy ===== *)
theory Reassembler
  imports Go_Strings "HOL-Library.Multiset"
begin

text \<open>
  The Reassembler: \<open>concatenateFiles\<close> of \<^verbatim>\<open>src/unnamed/part_000\<close>. It recovers the
  index of every segment file from its name (\<open>parse_segment_index\<close>, the body of
  the first loop), collects the \<open>FileWithIndex\<close> records (\<open>collect_indices\<close>),
  sorts them by index, creates the output file, appends the files to it in order
  (\<open>copy_files\<close>) and removes them (\<open>remove_files\<close>). The state is the file-system
  map of \<open>Go_Prelude\<close>. \<open>sort.Slice\<close> is not stable; it is modelled by
  \<open>sort_key\<close>, which gives the same order whenever the indices are distinct, as
  they are for the pipeline's segment names. Copying a file into itself (an
  output path equal to one of the segment files) is outside the model:
  \<open>io.Copy\<close> would then read what it writes.
\<close>

section \<open>The code\<close>

record FileWithIndex =
  Index :: int
  Name :: string

text \<open>Lines 150--159: the index in front of the first \<open>-\<close> of the base name.\<close>

definition parse_segment_index :: "string \<Rightarrow> failure + int" where
  "parse_segment_index filename =
     (let base = go_base filename;
          parts = splitN2 CHR ''-'' base
      in if length parts < 2 then Inl (InvalidFilenamePattern filename)
         else case go_atoi (parts ! 0) of
                None \<Rightarrow> Inl (InvalidIndex filename)
              | Some index \<Rightarrow> Inr index)"

fun collect_indices :: "string list \<Rightarrow> failure + FileWithIndex list" where
  "collect_indices [] = Inr []"
| "collect_indices (filename # rest) =
     (case parse_segment_index filename of
        Inl e \<Rightarrow> Inl e
      | Inr index \<Rightarrow>
          (case collect_indices rest of
             Inl e \<Rightarrow> Inl e
           | Inr fws \<Rightarrow> Inr (\<lparr>Index = index, Name = filename\<rparr> # fws)))"

text \<open>
  Lines 177--188: \<open>written\<close> is what the output file holds so far; every copy
  appends one file to it, and a file that cannot be opened ends the loop with the
  output as far as it got.
\<close>

fun copy_files :: "fsys \<Rightarrow> string \<Rightarrow> bytes \<Rightarrow> FileWithIndex list \<Rightarrow> failure option \<times> fsys" where
  "copy_files fs out written [] = (None, fs)"
| "copy_files fs out written (file # rest) =
     (case fs (Name file) of
        None \<Rightarrow> (Some (OpenFailed (Name file)), fs)
      | Some content \<Rightarrow> copy_files (fs(out \<mapsto> written @ content)) out (written @ content) rest)"

text \<open>Lines 189--191: \<open>os.Remove\<close>, its error ignored.\<close>

definition remove_files :: "FileWithIndex list \<Rightarrow> fsys \<Rightarrow> fsys" where
  "remove_files files fs = fold (\<lambda>file m. m(Name file := None)) files fs"

definition concatenateFiles :: "fsys \<Rightarrow> string list \<Rightarrow> string \<Rightarrow> failure option \<times> fsys" where
  "concatenateFiles fs filenames outputFile =
     (case collect_indices filenames of
        Inl e \<Rightarrow> (Some e, fs)
      | Inr filesWithIndex \<Rightarrow>
          let sorted = sort_key Index filesWithIndex
          in case copy_files (fs(outputFile \<mapsto> [])) outputFile [] sorted of
               (Some e, fs') \<Rightarrow> (Some e, fs')
             | (None, fs') \<Rightarrow> (None, remove_files sorted fs'))"

text \<open>The record the first loop builds for the segment file of worker \<open>i\<close>.\<close>

definition seg_entry :: "string \<Rightarrow> nat \<Rightarrow> FileWithIndex" where
  "seg_entry inputFile i = \<lparr>Index = int i, Name = segment_file_name (int i) inputFile\<rparr>"

section \<open>Lemmas\<close>

lemma collect_indices_all:
  assumes "\<And>x. x \<in> set xs \<Longrightarrow> parse_segment_index (Name x) = Inr (Index x)"
  shows "collect_indices (map Name xs) = Inr (map (\<lambda>x. \<lparr>Index = Index x, Name = Name x\<rparr>) xs)"
  using assms by (induction xs) auto

lemma copy_files_all:
  assumes "\<And>x. x \<in> set xs \<Longrightarrow> fs (Name x) = Some (c x)"
    and "out \<notin> Name ` set xs" "fs out = Some written"
  shows "copy_files fs out written xs = (None, fs(out \<mapsto> written @ concat (map c xs)))"
  using assms
proof (induction xs arbitrary: fs written)
  case Nil
  then show ?case by (simp add: map_upd_triv)
next
  case (Cons x xs)
  have "copy_files (fs(out \<mapsto> written @ c x)) out (written @ c x) xs
      = (None, fs(out \<mapsto> written @ c x, out \<mapsto> (written @ c x) @ concat (map c xs)))"
    using Cons.prems by (intro Cons.IH) auto
  with Cons.prems show ?case by (auto simp: fun_eq_iff)
qed

lemma copy_files_missing:
  assumes "\<And>x. x \<in> set xs \<Longrightarrow> fs (Name x) = Some (c x)"
    and "out \<notin> Name ` set xs" "fs out = Some written" "fs (Name y) = None"
  shows "copy_files fs out written (xs @ y # ys)
           = (Some (OpenFailed (Name y)), fs(out \<mapsto> written @ concat (map c xs)))"
  using assms
proof (induction xs arbitrary: fs written)
  case Nil
  then show ?case by (simp add: map_upd_triv)
next
  case (Cons x xs)
  have "fs (Name y) \<noteq> Some []" using Cons.prems(4) by simp
  then have "out \<noteq> Name y" using Cons.prems(3,4) by auto
  then have "copy_files (fs(out \<mapsto> written @ c x)) out (written @ c x) (xs @ y # ys)
      = (Some (OpenFailed (Name y)), fs(out \<mapsto> written @ c x, out \<mapsto> (written @ c x) @ concat (map c xs)))"
    using Cons.prems by (intro Cons.IH) auto
  with Cons.prems show ?case by (auto simp: fun_eq_iff)
qed

lemma remove_files_restrict: "remove_files xs fs = fs |` (- Name ` set xs)"
proof (induction xs arbitrary: fs)
  case Nil
  then show ?case by (simp add: remove_files_def)
next
  case (Cons x xs)
  then show ?case
    by (auto simp: remove_files_def restrict_map_def fun_eq_iff)
qed

lemma parse_segment_file_name:
  assumes "0 \<le> i" "in_i64 i" "CHR ''/'' \<notin> set (go_base f)"
  shows "parse_segment_index (segment_file_name i f) = Inr i"
proof -
  have "CHR ''/'' \<notin> set (segment_file_name i f)" "segment_file_name i f \<noteq> []"
    using assms(3) by (simp_all add: segment_file_name_def)
  then have base: "go_base (segment_file_name i f) = segment_file_name i f"
    by (rule go_base_no_slash [rotated])
  have "splitN2 CHR ''-'' (go_itoa i @ CHR ''-'' # (go_base f @ ''-output-segment.part'' @ go_itoa i))
      = [go_itoa i, go_base f @ ''-output-segment.part'' @ go_itoa i]"
    by (rule splitN2_first) (rule dash_notin_go_itoa [OF assms(1)])
  then have "splitN2 CHR ''-'' (segment_file_name i f)
      = [go_itoa i, go_base f @ ''-output-segment.part'' @ go_itoa i]"
    by (simp add: segment_file_name_def)
  then show ?thesis
    using assms(2) by (simp add: parse_segment_index_def base)
qed

lemma in_i64_nat: "i < 2 ^ 63 \<Longrightarrow> in_i64 (int i)"
  by (simp add: in_i64_def)

lemma parse_seg_entry:
  "i < 2 ^ 63 \<Longrightarrow> CHR ''/'' \<notin> set (go_base f)
   \<Longrightarrow> parse_segment_index (Name (seg_entry f i)) = Inr (Index (seg_entry f i))"
  by (simp add: seg_entry_def parse_segment_file_name in_i64_nat)

lemma seg_entry_eta [simp]: "\<lparr>Index = Index (seg_entry f i), Name = Name (seg_entry f i)\<rparr> = seg_entry f i"
  by (simp add: seg_entry_def)

lemma collect_seg_entries:
  assumes "\<forall>i\<in>set order. i < 2 ^ 63" "CHR ''/'' \<notin> set (go_base f)"
  shows "collect_indices (map (\<lambda>i. segment_file_name (int i) f) order) = Inr (map (seg_entry f) order)"
proof -
  have "map (\<lambda>i. segment_file_name (int i) f) order = map Name (map (seg_entry f) order)"
    by (simp add: seg_entry_def)
  moreover have "collect_indices (map Name (map (seg_entry f) order))
      = Inr (map (\<lambda>x. \<lparr>Index = Index x, Name = Name x\<rparr>) (map (seg_entry f) order))"
    using assms by (intro collect_indices_all) (auto simp: parse_seg_entry)
  moreover have "map (\<lambda>x. \<lparr>Index = Index x, Name = Name x\<rparr>) (map (seg_entry f) order) = map (seg_entry f) order"
    by simp
  ultimately show ?thesis by (simp only:)
qed

lemma sort_seg_entries:
  assumes "mset order = mset [0..<n]"
  shows "sort_key Index (map (seg_entry f) order) = map (seg_entry f) [0..<n]"
proof (rule sort_key_inj_key_eq)
  show "mset (map (seg_entry f) order) = mset (map (seg_entry f) [0..<n])"
    using assms by (simp only: mset_map)
  show "inj_on Index (set (map (seg_entry f) order))"
    by (auto simp: inj_on_def seg_entry_def)
  show "sorted (map Index (map (seg_entry f) [0..<n]))"
    by (simp add: seg_entry_def sorted_map comp_def)
qed

lemma seg_names [simp]:
  "Name ` set (map (seg_entry f) [0..<n]) = (\<lambda>i. segment_file_name (int i) f) ` {..<n}"
  by (auto simp: seg_entry_def image_image atLeast_upt [symmetric])

lemma copy_seg_entries:
  assumes "\<forall>i<n. fs (segment_file_name (int i) f) = Some (cs ! i)" "n \<le> length cs"
    and "\<forall>i<n. out \<noteq> segment_file_name (int i) f" "fs out = Some written"
  shows "copy_files fs out written (map (seg_entry f) [0..<n]) = (None, fs(out \<mapsto> written @ concat (take n cs)))"
proof -
  have "copy_files fs out written (map (seg_entry f) [0..<n])
      = (None, fs(out \<mapsto> written @ concat (map (\<lambda>x. cs ! nat (Index x)) (map (seg_entry f) [0..<n]))))"
    using assms by (intro copy_files_all) (auto simp: seg_entry_def)
  moreover have "map (\<lambda>x. cs ! nat (Index x)) (map (seg_entry f) [0..<n]) = take n cs"
    using assms(2) by (intro nth_equalityI) (simp_all add: seg_entry_def)
  ultimately show ?thesis by simp
qed

lemma set_perm_upt: "mset order = mset [0..<n] \<Longrightarrow> set order = {..<n}"
  by (drule mset_eq_setD) (simp only: set_upt atLeast0LessThan)

lemma concatenateFiles_perm:
  assumes "mset o1 = mset [0..<n]" "mset o2 = mset [0..<n]" "n \<le> 2 ^ 63" "CHR ''/'' \<notin> set (go_base f)"
  shows "concatenateFiles fs (map (\<lambda>i. segment_file_name (int i) f) o1) out
       = concatenateFiles fs (map (\<lambda>i. segment_file_name (int i) f) o2) out"
proof -
  have "\<forall>i\<in>set o1. i < 2 ^ 63" "\<forall>i\<in>set o2. i < 2 ^ 63"
    using set_perm_upt [OF assms(1)] set_perm_upt [OF assms(2)] assms(3) by auto
  then show ?thesis
    using collect_seg_entries [of o1 f] collect_seg_entries [of o2 f] assms(4)
      sort_seg_entries [OF assms(1), of f] sort_seg_entries [OF assms(2), of f]
    by (simp add: concatenateFiles_def)
qed

text \<open>
  C12 (roundtrip). The segment file naming scheme recovers the index: the first loop
  of \<open>concatenateFiles\<close> reads back, from the name \<open>compressPart\<close> gives the
  segment file of worker \<open>i\<close>, exactly \<open>i\<close>, and distinct workers get distinct
  names (for an input whose base name has no slash).
\<close>

theorem segment_index_roundtrip:
  assumes "0 \<le> i" "in_i64 i" "0 \<le> j" "in_i64 j" "CHR ''/'' \<notin> set (go_base f)"
  shows "parse_segment_index (segment_file_name i f) = Inr i
         \<and> (segment_file_name i f = segment_file_name j f \<longleftrightarrow> i = j)"
proof -
  have i: "parse_segment_index (segment_file_name i f) = Inr i"
    using assms(1,2,5) by (rule parse_segment_file_name)
  have j: "parse_segment_index (segment_file_name j f) = Inr j"
    using assms(3,4,5) by (rule parse_segment_file_name)
  have "segment_file_name i f = segment_file_name j f \<longrightarrow> i = j"
    using i j by (metis sum.inject(2))
  with i show ?thesis by blast
qed

theorem segment_index_roundtrip_witness:
  "parse_segment_index (segment_file_name 12 ''/tmp/in'') = Inr 12
   \<and> (segment_file_name 12 ''/tmp/in'' = segment_file_name 3 ''/tmp/in'' \<longleftrightarrow> (12::int) = 3)"
  by (rule segment_index_roundtrip) (simp_all add: in_i64_def go_base_def)

lemma concatenateFiles_in_order:
  assumes "mset order = mset [0..<n]" "n \<le> 2 ^ 63" "CHR ''/'' \<notin> set (go_base f)"
    and "length cs = n" "\<forall>i<n. fs (segment_file_name (int i) f) = Some (cs ! i)"
    and "\<forall>i<n. out \<noteq> segment_file_name (int i) f"
  shows "concatenateFiles fs (map (\<lambda>i. segment_file_name (int i) f) order) out
           = (None, remove_files (map (seg_entry f) [0..<n]) (fs(out \<mapsto> concat cs)))"
proof -
  have "set order = set [0..<n]" using assms(1) by (rule mset_eq_setD)
  then have lt: "\<forall>i\<in>set order. i < 2 ^ 63"
    using assms(2) by auto
  have "\<forall>i<n. (fs(out \<mapsto> [])) (segment_file_name (int i) f) = Some (cs ! i)"
    using assms(5,6) by auto
  then have copy: "copy_files (fs(out \<mapsto> [])) out [] (map (seg_entry f) [0..<n]) = (None, fs(out \<mapsto> concat cs))"
    using copy_seg_entries [of n "fs(out \<mapsto> [])" f cs out "[]"] assms(4,6) by simp
  show ?thesis
    using collect_seg_entries [OF lt assms(3)] sort_seg_entries [OF assms(1), of f] copy
    by (simp add: concatenateFiles_def)
qed

text \<open>
  C11 (functional). Whatever order the segment file names arrive in, when every
  segment file is present \<open>concatenateFiles\<close> succeeds, the output file holds the
  segments' contents in index order, and the segment files are removed; no other
  file changes.
\<close>

theorem concatenateFiles_segments:
  assumes "mset order = mset [0..<n]" "n \<le> 2 ^ 63" "CHR ''/'' \<notin> set (go_base f)"
    and "length cs = n" "\<forall>i<n. fs (segment_file_name (int i) f) = Some (cs ! i)"
    and "\<forall>i<n. out \<noteq> segment_file_name (int i) f"
  shows "concatenateFiles fs (map (\<lambda>i. segment_file_name (int i) f) order) out
           = (None, fs(out \<mapsto> concat cs) |` (- (\<lambda>i. segment_file_name (int i) f) ` {..<n}))"
  using concatenateFiles_in_order [OF assms] by (simp only: remove_files_restrict seg_names)

theorem concatenateFiles_segments_witness:
  "concatenateFiles [''0-in-output-segment.part0'' \<mapsto> [7], ''1-in-output-segment.part1'' \<mapsto> [8, 9]]
       [''1-in-output-segment.part1'', ''0-in-output-segment.part0''] ''out''
   = (None, [''0-in-output-segment.part0'' \<mapsto> [7], ''1-in-output-segment.part1'' \<mapsto> [8, 9], ''out'' \<mapsto> [7, 8, 9]]
             |` (- (\<lambda>i. segment_file_name (int i) ''in'') ` {..<2}))"
proof -
  have n: "segment_file_name 0 ''in'' = ''0-in-output-segment.part0''"
          "segment_file_name 1 ''in'' = ''1-in-output-segment.part1''"
    by (simp_all add: segment_file_name_def go_itoa_def nat_digits.simps digit_char_def go_base_def)
  have two: "\<And>P. (\<forall>i<2. P i) = (P (0::nat) \<and> P 1)"
    by (auto simp: less_2_cases_iff)
  have "concatenateFiles [''0-in-output-segment.part0'' \<mapsto> [7], ''1-in-output-segment.part1'' \<mapsto> [8, 9]]
       (map (\<lambda>i. segment_file_name (int i) ''in'') [1, 0]) ''out''
   = (None, [''0-in-output-segment.part0'' \<mapsto> [7], ''1-in-output-segment.part1'' \<mapsto> [8, 9]](''out'' \<mapsto> concat [[7], [8, 9]])
             |` (- (\<lambda>i. segment_file_name (int i) ''in'') ` {..<2}))"
  proof (rule concatenateFiles_segments)
    show "mset [1, 0] = mset [0..<2]" by (simp add: upt_rec)
    show "(2::nat) \<le> 2 ^ 63" by simp
    show "CHR ''/'' \<notin> set (go_base ''in'')" by (simp add: go_base_def)
    show "length [[7], [8, 9 :: byte]] = 2" by simp
    show "\<forall>i<2. [''0-in-output-segment.part0'' \<mapsto> [7], ''1-in-output-segment.part1'' \<mapsto> [8, 9]]
            (segment_file_name (int i) ''in'') = Some ([[7], [8, 9 :: byte]] ! i)"
      by (simp only: two) (simp add: n)
    show "\<forall>i<2. ''out'' \<noteq> segment_file_name (int i) ''in''"
      by (simp only: two) (simp add: n)
  qed
  moreover have "map (\<lambda>i. segment_file_name (int i) ''in'') [1, 0]
      = [''1-in-output-segment.part1'', ''0-in-output-segment.part0'']"
    by (simp add: n)
  ultimately show ?thesis by (simp only: concat.simps append.simps append_Nil2)
qed

text \<open>
  C16 (error). When segment file \<open>j\<close> is missing, \<open>concatenateFiles\<close> fails
  with the open error, leaves the output file holding segments \<open>0\<close> to
  \<open>j - 1\<close>, and removes none of the segment files. The spec asks that a failed
  reassembly leave no partial output and no intermediate files.
\<close>

theorem concatenateFiles_missing_segment:
  assumes "mset order = mset [0..<n]" "n \<le> 2 ^ 63" "CHR ''/'' \<notin> set (go_base f)"
    and "j < n" "length cs = j" "\<forall>i<j. fs (segment_file_name (int i) f) = Some (cs ! i)"
    and "fs (segment_file_name (int j) f) = None" "\<forall>i<n. out \<noteq> segment_file_name (int i) f"
  shows "concatenateFiles fs (map (\<lambda>i. segment_file_name (int i) f) order) out
           = (Some (OpenFailed (segment_file_name (int j) f)), fs(out \<mapsto> concat cs))"
proof -
  have "set order = set [0..<n]" using assms(1) by (rule mset_eq_setD)
  then have lt: "\<forall>i\<in>set order. i < 2 ^ 63"
    using assms(2) by auto
  have "[0..<n] = [0..<j] @ [j..<n]"
    using upt_add_eq_append [of 0 j "n - j"] assms(4) by simp
  also have "[j..<n] = j # [Suc j..<n]" using assms(4) by (rule upt_conv_Cons)
  finally have split: "map (seg_entry f) [0..<n]
      = map (seg_entry f) [0..<j] @ seg_entry f j # map (seg_entry f) [Suc j..<n]"
    by simp
  have present: "\<And>x. x \<in> set (map (seg_entry f) [0..<j])
      \<Longrightarrow> (fs(out \<mapsto> [])) (Name x) = Some (cs ! nat (Index x))"
  proof -
    fix x assume "x \<in> set (map (seg_entry f) [0..<j])"
    then obtain i where i: "i < j" "x = seg_entry f i" by auto
    then have "out \<noteq> segment_file_name (int i) f" using assms(4,8) by auto
    then show "(fs(out \<mapsto> [])) (Name x) = Some (cs ! nat (Index x))"
      using assms(6) i by (simp add: seg_entry_def)
  qed
  have notout: "out \<notin> Name ` set (map (seg_entry f) [0..<j])"
  proof
    assume "out \<in> Name ` set (map (seg_entry f) [0..<j])"
    then obtain i where i: "i < j" "out = segment_file_name (int i) f" by (auto simp: seg_entry_def)
    then have "i < n" using assms(4) by simp
    with i(2) assms(8) show False by blast
  qed
  have "out \<noteq> segment_file_name (int j) f" using assms(4,8) by blast
  then have missing: "(fs(out \<mapsto> [])) (Name (seg_entry f j)) = None"
    using assms(7) by (simp add: seg_entry_def)
  have "copy_files (fs(out \<mapsto> [])) out [] (map (seg_entry f) [0..<j] @ seg_entry f j # map (seg_entry f) [Suc j..<n])
      = (Some (OpenFailed (Name (seg_entry f j))),
         fs(out \<mapsto> [], out \<mapsto> [] @ concat (map (\<lambda>x. cs ! nat (Index x)) (map (seg_entry f) [0..<j]))))"
    using copy_files_missing [where fs = "fs(out \<mapsto> [])" and c = "\<lambda>x. cs ! nat (Index x)"
        and written = "[]" and ys = "map (seg_entry f) [Suc j..<n]", OF present notout _ missing]
    by simp
  moreover have "map (\<lambda>x. cs ! nat (Index x)) (map (seg_entry f) [0..<j]) = cs"
    using assms(5) by (intro nth_equalityI) (simp_all add: seg_entry_def)
  ultimately have copy: "copy_files (fs(out \<mapsto> [])) out [] (map (seg_entry f) [0..<n])
      = (Some (OpenFailed (segment_file_name (int j) f)), fs(out \<mapsto> concat cs))"
    by (simp add: split seg_entry_def)
  show ?thesis
    using collect_seg_entries [OF lt assms(3)] sort_seg_entries [OF assms(1), of f] copy
    by (simp add: concatenateFiles_def)
qed

theorem concatenateFiles_missing_segment_witness:
  "concatenateFiles [''0-in-output-segment.part0'' \<mapsto> [7]]
       [''1-in-output-segment.part1'', ''0-in-output-segment.part0''] ''out''
   = (Some (OpenFailed ''1-in-output-segment.part1''), [''0-in-output-segment.part0'' \<mapsto> [7], ''out'' \<mapsto> [7]])"
proof -
  have n: "segment_file_name 0 ''in'' = ''0-in-output-segment.part0''"
          "segment_file_name 1 ''in'' = ''1-in-output-segment.part1''"
    by (simp_all add: segment_file_name_def go_itoa_def nat_digits.simps digit_char_def go_base_def)
  have two: "\<And>P. (\<forall>i<2. P i) = (P (0::nat) \<and> P 1)"
    by (auto simp: less_2_cases_iff)
  have "concatenateFiles [''0-in-output-segment.part0'' \<mapsto> [7]]
       (map (\<lambda>i. segment_file_name (int i) ''in'') [1, 0]) ''out''
   = (Some (OpenFailed (segment_file_name (int 1) ''in'')),
      [''0-in-output-segment.part0'' \<mapsto> [7]](''out'' \<mapsto> concat [[7]]))"
  proof (rule concatenateFiles_missing_segment)
    show "mset [1, 0] = mset [0..<2]" by (simp add: upt_rec)
    show "(2::nat) \<le> 2 ^ 63" by simp
    show "CHR ''/'' \<notin> set (go_base ''in'')" by (simp add: go_base_def)
    show "(1::nat) < 2" by simp
    show "length [[7 :: byte]] = 1" by simp
    show "\<forall>i<1. [''0-in-output-segment.part0'' \<mapsto> [7]] (segment_file_name (int i) ''in'') = Some ([[7 :: byte]] ! i)"
      by (simp add: n)
    show "[''0-in-output-segment.part0'' \<mapsto> [7 :: byte]] (segment_file_name (int 1) ''in'') = None"
      by (simp add: n)
    show "\<forall>i<2. ''out'' \<noteq> segment_file_name (int i) ''in''"
      by (simp only: two) (simp add: n)
  qed
  moreover have "map (\<lambda>i. segment_file_name (int i) ''in'') [1, 0]
      = [''1-in-output-segment.part1'', ''0-in-output-segment.part0'']"
    by (simp add: n)
  moreover have "segment_file_name (int 1) ''in'' = ''1-in-output-segment.part1''"
    by (simp add: n)
  ultimately show ?thesis by (simp only: concat.simps append.simps append_Nil2)
qed

end
