(* ===== verification/Orchestrator.thy ===== *)
theory Orchestrator
  imports Segment_Planner Segment_Worker Reassembler
begin

text \<open>
  The Pipeline Orchestrator: \<open>compressFileBlock\<close> of \<^verbatim>\<open>src/unnamed/part_000\<close>. It
  plans the segments (\<open>calculateSegment\<close>), starts one goroutine per segment that
  runs \<open>compressPart\<close> and sends the segment file's name (or \<open>""\<close> and the error)
  on two buffered channels, drains the name channel once every worker is done,
  panics if the error channel holds anything, and otherwise concatenates the
  segment files, ignoring the error \<open>concatenateFiles\<close> returns.

  The state the goroutines share is a \<open>pipeline\<close> record: the file system and
  the contents of the two channels. A worker's effect is taken at its completion
  (\<open>worker_done\<close>); the workers run in any completion order, a parameter
  \<open>order\<close> that lists worker indices as they finish (\<open>run_workers\<close>). This is
  sound because the workers share no mutable state: each one writes only its own
  segment file, which is never the input (\<open>segment_file_name_neq\<close>), and reads
  only the input, which no worker writes. The compression level is part of the
  encoder \<open>enc\<close>.
\<close>

section \<open>The code\<close>

record pipeline =
  files :: fsys
  outputFiles :: "string list"
  errors :: "failure list"

text \<open>Lines 207--216: the goroutine of worker \<open>i\<close>.\<close>

definition worker_done ::
  "reader \<Rightarrow> (bytes \<Rightarrow> bytes) \<Rightarrow> string \<Rightarrow> (int \<times> int) list \<Rightarrow> pipeline \<Rightarrow> nat \<Rightarrow> pipeline" where
  "worker_done rd enc inputFile offset st i =
     (case compressPart rd enc (files st) inputFile (int i) (offset ! i) of
        (Inl err, fs') \<Rightarrow> st\<lparr>files := fs', errors := errors st @ [err], outputFiles := outputFiles st @ [[]]\<rparr>
      | (Inr outfile, fs') \<Rightarrow> st\<lparr>files := fs', outputFiles := outputFiles st @ [outfile]\<rparr>)"

definition run_workers ::
  "reader \<Rightarrow> (bytes \<Rightarrow> bytes) \<Rightarrow> string \<Rightarrow> (int \<times> int) list \<Rightarrow> nat list \<Rightarrow> pipeline \<Rightarrow> pipeline" where
  "run_workers rd enc inputFile offset order st =
     fold (\<lambda>i st. worker_done rd enc inputFile offset st i) order st"

text \<open>
  Lines 195--240. \<open>make(chan T, numThreads)\<close> panics for a negative size; the
  loop \<open>for err := range errChan\<close> panics on the first error it receives; the
  result of \<open>concatenateFiles\<close> is dropped.
\<close>

definition compressFileBlock ::
  "reader \<Rightarrow> (bytes \<Rightarrow> bytes) \<Rightarrow> fsys \<Rightarrow> string \<Rightarrow> string \<Rightarrow> int \<Rightarrow> nat list \<Rightarrow> failure option \<times> fsys" where
  "compressFileBlock rd enc fs inputFile outputFile numThreads order =
     (case calculateSegment fs inputFile numThreads of
        Inl err \<Rightarrow> (Some err, fs)
      | Inr offset \<Rightarrow>
          if numThreads < 0 then (Some MakechanSizeOutOfRange, fs)
          else let st = run_workers rd enc inputFile offset order
                          \<lparr>files = fs, outputFiles = [], errors = []\<rparr>
               in if errors st \<noteq> [] then (Some SomeWorkerFailed, files st)
                  else (None, snd (concatenateFiles (files st) (outputFiles st) outputFile)))"

text \<open>The bytes worker \<open>i\<close> of the plan compresses.\<close>

definition plan_bytes :: "bytes \<Rightarrow> nat \<Rightarrow> nat \<Rightarrow> bytes" where
  "plan_bytes content w i =
     byte_range (nat (fst (plan (int (length content)) w ! i))) (nat (snd (plan (int (length content)) w ! i))) content"

section \<open>Lemmas\<close>

lemma files_worker_done_input:
  "files (worker_done rd enc inputFile offset st i) inputFile = files st inputFile"
  by (simp add: worker_done_def compressPart_eq segment_file_name_neq [symmetric]
      split: option.split sum.split prod.split)

lemma run_workers_input:
  "files (run_workers rd enc inputFile offset order st) inputFile = files st inputFile"
  by (induction order arbitrary: st) (simp_all add: run_workers_def files_worker_done_input)

lemma run_workers_ok:
  assumes "files st inputFile = Some content"
    and "\<And>i. i \<in> set order \<Longrightarrow>
           part_result rd enc content inputFile (int i) (offset ! i) = (Inr (segment_file_name (int i) inputFile), w i)"
  shows "run_workers rd enc inputFile offset order st =
           st\<lparr>files := fold (\<lambda>i m. m(segment_file_name (int i) inputFile \<mapsto> w i)) order (files st),
              outputFiles := outputFiles st @ map (\<lambda>i. segment_file_name (int i) inputFile) order\<rparr>"
  using assms
proof (induction order arbitrary: st)
  case Nil
  then show ?case by (simp add: run_workers_def)
next
  case (Cons x order)
  have step: "worker_done rd enc inputFile offset st x =
      st\<lparr>files := (files st)(segment_file_name (int x) inputFile \<mapsto> w x),
         outputFiles := outputFiles st @ [segment_file_name (int x) inputFile]\<rparr>"
    using Cons.prems by (simp add: worker_done_def compressPart_eq)
  have "files (worker_done rd enc inputFile offset st x) inputFile = Some content"
    using Cons.prems(1) by (simp only: files_worker_done_input)
  then have "run_workers rd enc inputFile offset order (worker_done rd enc inputFile offset st x) =
      (worker_done rd enc inputFile offset st x)\<lparr>
        files := fold (\<lambda>i m. m(segment_file_name (int i) inputFile \<mapsto> w i)) order
                  (files (worker_done rd enc inputFile offset st x)),
        outputFiles := outputFiles (worker_done rd enc inputFile offset st x)
                  @ map (\<lambda>i. segment_file_name (int i) inputFile) order\<rparr>"
    using Cons.prems(2) by (intro Cons.IH) auto
  then show ?case by (simp add: run_workers_def step fun_upd_def)
qed

lemma length_plan [simp]: "length (plan fs w) = w"
  by (simp add: plan_def Let_def)

lemma plan_nth:
  "i < w \<Longrightarrow> plan fs w ! i = (boundary fs (units fs div int w) (units fs mod int w) i,
                               boundary fs (units fs div int w) (units fs mod int w) (Suc i))"
  by (simp add: plan_def Let_def)

lemma boundary_mono_plan:
  assumes "0 \<le> fs" "0 < w" "i \<le> j"
  shows "boundary fs (units fs div int w) (units fs mod int w) i
           \<le> boundary fs (units fs div int w) (units fs mod int w) j"
  using assms units_nonneg [OF assms(1)] by (intro boundary_mono) (auto simp: pos_imp_zdiv_nonneg_iff)

lemma boundary_zero_plan:
  "0 \<le> fs \<Longrightarrow> 0 < w \<Longrightarrow> boundary fs (units fs div int w) (units fs mod int w) 0 = 0"
  using units_nonneg [of fs] by (intro boundary_zero) simp_all

lemma boundary_nonneg_plan:
  assumes "0 \<le> fs" "0 < w"
  shows "0 \<le> boundary fs (units fs div int w) (units fs mod int w) i"
  using boundary_mono_plan [OF assms, of 0 i] boundary_zero_plan [OF assms] by simp

lemma plan_worker_exact:
  assumes "0 < w" "i < w" "oneMB \<le> c"
  shows "part_result (const_reads c) enc content f (int i) (plan (int (length content)) w ! i)
           = (Inr (segment_file_name (int i) f), concat (map enc (chunks_of oneMB (plan_bytes content w i))))"
proof -
  let ?L = "int (length content)"
  obtain a b where ab: "plan ?L w ! i = (a, b)" by fastforce
  have mem: "(a, b) \<in> set (plan ?L w)" using ab nth_mem [of i "plan ?L w"] assms(2) by simp
  have props: "a \<le> b \<and> b \<le> ?L \<and> (a = ?L \<or> int oneMB dvd a) \<and> (b = ?L \<or> int oneMB dvd b) \<and> (a = b \<longrightarrow> a = ?L)"
    using assms(1) mem by (intro plan_segment_props) simp_all
  have a0: "0 \<le> a" using ab plan_nth [OF assms(2)] boundary_nonneg_plan [of ?L w i] assms(1) by simp
  have shape: "b = ?L \<or> int oneMB dvd (b - a)"
    using props by (auto intro: dvd_diff)
  show ?thesis
    using part_result_exact [OF assms(3) a0 _ _ shape, of enc f "int i"] props ab
    by (simp add: plan_bytes_def)
qed

lemma plan_bytes_concat:
  assumes "0 < w"
  shows "concat (map (plan_bytes content w) [0..<w]) = content"
proof -
  let ?L = "int (length content)"
  let ?g = "\<lambda>i. nat (boundary ?L (units ?L div int w) (units ?L mod int w) i)"
  have eq: "map (plan_bytes content w) [0..<w] = map (\<lambda>i. byte_range (?g i) (?g (Suc i)) content) [0..<w]"
    by (simp add: plan_bytes_def plan_nth)
  have mono: "\<And>i. ?g i \<le> ?g (Suc i)"
    using boundary_mono_plan [OF _ assms] by (simp add: nat_mono)
  have "?g 0 = 0" using boundary_zero_plan [OF _ assms, of ?L] by simp
  moreover have "?g w = length content" using assms by (simp add: boundary_total)
  ultimately have "concat (map (\<lambda>i. byte_range (?g i) (?g (Suc i)) content) [0..<w]) = content"
    using byte_range_concat [of ?g content w, OF mono] by simp
  then show ?thesis by (simp only: eq)
qed

lemma restrict_fold_upd:
  assumes "set xs \<subseteq> S"
  shows "(fold (\<lambda>i m. m(g i \<mapsto> v i)) xs m)(k \<mapsto> x) |` (- g ` S) = m(k \<mapsto> x) |` (- g ` S)"
proof (rule ext)
  fix p
  show "((fold (\<lambda>i m. m(g i \<mapsto> v i)) xs m)(k \<mapsto> x) |` (- g ` S)) p = (m(k \<mapsto> x) |` (- g ` S)) p"
  proof (cases "p \<in> g ` S")
    case False
    then have "p \<notin> g ` set xs" using assms by auto
    with False show ?thesis by (simp add: restrict_map_def fold_map_upd_other)
  qed (simp add: restrict_map_def)
qed

lemma segment_names_inj:
  assumes "n \<le> 2 ^ 63" "CHR ''/'' \<notin> set (go_base f)"
  shows "inj_on (\<lambda>i. segment_file_name (int i) f) {..<n}"
proof (rule inj_onI)
  fix i j assume ij: "i \<in> {..<n}" "j \<in> {..<n}" and eq: "segment_file_name (int i) f = segment_file_name (int j) f"
  have lt: "i < 2 ^ 63" "j < 2 ^ 63" using ij assms(1) by simp_all
  have pi: "parse_segment_index (segment_file_name (int i) f) = Inr (int i)"
    by (rule parse_segment_file_name [OF _ in_i64_nat [OF lt(1)] assms(2)]) simp
  have pj: "parse_segment_index (segment_file_name (int j) f) = Inr (int j)"
    by (rule parse_segment_file_name [OF _ in_i64_nat [OF lt(2)] assms(2)]) simp
  have "parse_segment_index (segment_file_name (int j) f) = Inr (int i)"
    using pi unfolding eq .
  then show "i = j" using pj by simp
qed

text \<open>Every worker of a valid plan succeeds on a regular file.\<close>

lemma run_workers_plan:
  assumes "fs inputFile = Some content" "0 < w" "oneMB \<le> c" "set order \<subseteq> {..<w}"
  shows "run_workers (const_reads c) enc inputFile (plan (int (length content)) w) order
            \<lparr>files = fs, outputFiles = [], errors = []\<rparr>
         = \<lparr>files = fold (\<lambda>i m. m(segment_file_name (int i) inputFile \<mapsto>
                              concat (map enc (chunks_of oneMB (plan_bytes content w i))))) order fs,
            outputFiles = map (\<lambda>i. segment_file_name (int i) inputFile) order, errors = []\<rparr>"
  using assms by (subst run_workers_ok [where content = content]) (auto intro: plan_worker_exact)

text \<open>The outcome of worker \<open>i\<close> on the input's contents.\<close>

lemma run_workers_eq:
  assumes "files st inputFile = Some content"
  shows "run_workers rd enc inputFile offset order st =
    st\<lparr>files := fold (\<lambda>i m. m(segment_file_name (int i) inputFile \<mapsto>
                        snd (part_result rd enc content inputFile (int i) (offset ! i)))) order (files st),
       outputFiles := outputFiles st @ map (\<lambda>i. case fst (part_result rd enc content inputFile (int i) (offset ! i)) of
                        Inl _ \<Rightarrow> [] | Inr nm \<Rightarrow> nm) order,
       errors := errors st @ concat (map (\<lambda>i. case fst (part_result rd enc content inputFile (int i) (offset ! i)) of
                        Inl e \<Rightarrow> [e] | Inr _ \<Rightarrow> []) order)\<rparr>"
  using assms
proof (induction order arbitrary: st)
  case Nil
  then show ?case by (simp add: run_workers_def)
next
  case (Cons x order)
  let ?R = "part_result rd enc content inputFile (int x) (offset ! x)"
  have step: "worker_done rd enc inputFile offset st x =
      st\<lparr>files := (files st)(segment_file_name (int x) inputFile \<mapsto> snd ?R),
         outputFiles := outputFiles st @ [case fst ?R of Inl _ \<Rightarrow> [] | Inr nm \<Rightarrow> nm],
         errors := errors st @ (case fst ?R of Inl e \<Rightarrow> [e] | Inr _ \<Rightarrow> [])\<rparr>"
    using Cons.prems by (cases "fst ?R") (simp_all add: worker_done_def compressPart_eq split: prod.split)
  have "files (worker_done rd enc inputFile offset st x) inputFile = Some content"
    using Cons.prems(1) by (simp only: files_worker_done_input)
  from Cons.IH [OF this] show ?case by (simp add: run_workers_def step fun_upd_def)
qed

lemma fold_map_upd_perm:
  assumes "mset xs = mset ys" "inj_on g (set xs)"
  shows "fold (\<lambda>i m. m(g i \<mapsto> v i)) xs m = fold (\<lambda>i m. m(g i \<mapsto> v i)) ys m"
proof
  fix p
  have set: "set xs = set ys" using assms(1) by (rule mset_eq_setD)
  show "fold (\<lambda>i m. m(g i \<mapsto> v i)) xs m p = fold (\<lambda>i m. m(g i \<mapsto> v i)) ys m p"
  proof (cases "p \<in> g ` set xs")
    case True
    then obtain i where i: "i \<in> set xs" "p = g i" by blast
    have "i \<in> set ys" "inj_on g (set ys)" using i(1) assms(2) set by simp_all
    then show ?thesis
      using fold_map_upd_at [OF i(1) assms(2), of v m] fold_map_upd_at [of i ys g v m]
      unfolding i(2) by (simp only:)
  next
    case False
    have ys: "p \<notin> g ` set ys" using False set by simp
    show ?thesis
      using fold_map_upd_other [OF False, of v m] fold_map_upd_other [OF ys, of v m] by (simp only:)
  qed
qed

lemma calculateSegment_Inl:
  "calculateSegment fs f n = Inl e \<Longrightarrow> e = StatFailed \<or> e = DivideByZero"
  by (auto simp: calculateSegment_def divideFileIntoSegments_def Let_def split: option.splits if_splits)

text \<open>
  C1 (roundtrip). End to end: for a regular input file that fits the int64 plan, a
  positive worker count and a concatenation-safe codec, whatever order the
  workers finish in, \<open>compressFileBlock\<close> succeeds, its output file decodes to
  the input, every segment file is removed, and no other file changes.
\<close>

theorem compressFileBlock_roundtrip:
  assumes "fs inputFile = Some content" "int (length content) \<le> 2 ^ 63 - int oneMB"
    and "0 < numThreads" "in_i64 numThreads" "oneMB \<le> c" "frame_law enc dec"
    and "mset order = mset [0..<nat numThreads]" "CHR ''/'' \<notin> set (go_base inputFile)"
    and "\<forall>i<nat numThreads. outputFile \<noteq> segment_file_name (int i) inputFile"
  shows "\<exists>out. compressFileBlock (const_reads c) enc fs inputFile outputFile numThreads order
           = (None, fs(outputFile \<mapsto> out) |` (- (\<lambda>i. segment_file_name (int i) inputFile) ` {..<nat numThreads}))
         \<and> dec out = Some content"
proof -
  define n where "n = nat numThreads"
  define name where "name = (\<lambda>i. segment_file_name (int i) inputFile)"
  define seg where "seg = (\<lambda>i. concat (map enc (chunks_of oneMB (plan_bytes content n i))))"
  define fs1 where "fs1 = fold (\<lambda>i m. m(name i \<mapsto> seg i)) order fs"
  have n0: "0 < n" using assms(3) by (simp add: n_def)
  have n63: "n \<le> 2 ^ 63" using nat_in_i64 [OF assms(4)] by (simp add: n_def)
  have set_order: "set order = {..<n}"
    using assms(7) unfolding n_def by (rule set_perm_upt)
  have calc: "calculateSegment fs inputFile numThreads = Inr (plan (int (length content)) n)"
    using assms(1-4) by (simp add: calculateSegment_def divideFileIntoSegments_eq_plan n_def)
  have run: "run_workers (const_reads c) enc inputFile (plan (int (length content)) n) order
            \<lparr>files = fs, outputFiles = [], errors = []\<rparr>
         = \<lparr>files = fs1, outputFiles = map name order, errors = []\<rparr>"
    using run_workers_plan [where fs = fs and inputFile = inputFile and content = content and enc = enc,
        OF assms(1) n0 assms(5)] set_order by (simp add: fs1_def name_def seg_def)
  have inj: "inj_on name (set order)"
    using segment_names_inj [OF n63 assms(8)] set_order by (simp add: name_def)
  have present: "\<forall>i<n. fs1 (name i) = Some (map seg [0..<n] ! i)"
  proof (intro allI impI)
    fix i assume "i < n"
    then have "fs1 (name i) = Some (seg i)"
      unfolding fs1_def using set_order by (intro fold_map_upd_at [OF _ inj]) auto
    then show "fs1 (name i) = Some (map seg [0..<n] ! i)" using \<open>i < n\<close> by simp
  qed
  have cf: "concatenateFiles fs1 (map name order) outputFile
      = (None, remove_files (map (seg_entry inputFile) [0..<n]) (fs1(outputFile \<mapsto> concat (map seg [0..<n]))))"
    using concatenateFiles_in_order [of order n inputFile "map seg [0..<n]" fs1 outputFile] assms(7-9) n63 present
    by (simp add: name_def n_def)
  have "compressFileBlock (const_reads c) enc fs inputFile outputFile numThreads order
      = (None, remove_files (map (seg_entry inputFile) [0..<n]) (fs1(outputFile \<mapsto> concat (map seg [0..<n]))))"
    using calc run cf assms(3) by (simp add: compressFileBlock_def)
  also have "remove_files (map (seg_entry inputFile) [0..<n]) (fs1(outputFile \<mapsto> concat (map seg [0..<n])))
      = fs1(outputFile \<mapsto> concat (map seg [0..<n])) |` (- name ` {..<n})"
    by (simp only: remove_files_restrict seg_names name_def)
  also have "\<dots> = fs(outputFile \<mapsto> concat (map seg [0..<n])) |` (- name ` {..<n})"
    unfolding fs1_def by (rule restrict_fold_upd) (simp add: set_order)
  finally have res: "compressFileBlock (const_reads c) enc fs inputFile outputFile numThreads order
      = (None, fs(outputFile \<mapsto> concat (map seg [0..<n])) |` (- name ` {..<n}))" .
  have "dec (concat (map seg [0..<n])) = Some content"
  proof -
    have "concat (map seg [0..<n]) = concat (map enc (concat (map (\<lambda>i. chunks_of oneMB (plan_bytes content n i)) [0..<n])))"
      by (simp add: seg_def concat_map_concat_map)
    moreover have "concat (concat (map (\<lambda>i. chunks_of oneMB (plan_bytes content n i)) [0..<n])) = content"
      using plan_bytes_concat [OF n0, of content] by (simp add: concat_concat_chunks_of)
    ultimately show ?thesis using assms(6) by (simp add: frame_law_def)
  qed
  with res show ?thesis by (auto simp: name_def n_def)
qed
theorem compressFileBlock_roundtrip_witness:
  "\<exists>out. compressFileBlock (const_reads oneMB) encode_frame [''in'' \<mapsto> [1, 2, 3]] ''in'' ''out'' 1 [0]
           = (None, [''in'' \<mapsto> [1, 2, 3], ''out'' \<mapsto> out] |` (- (\<lambda>i. segment_file_name (int i) ''in'') ` {..<nat 1}))
         \<and> decode_frames out = Some [1, 2, 3]"
proof (rule compressFileBlock_roundtrip)
  have n: "segment_file_name 0 ''in'' = ''0-in-output-segment.part0''"
    by (simp add: segment_file_name_def go_itoa_def nat_digits.simps digit_char_def go_base_def)
  show "\<forall>i<nat 1. ''out'' \<noteq> segment_file_name (int i) ''in''" by (simp add: n)
  show "frame_law encode_frame decode_frames" by (rule stored_frames_law)
  show "mset [0] = mset [0..<nat 1]" by simp
  show "CHR ''/'' \<notin> set (go_base ''in'')" by (simp add: go_base_def)
qed (simp_all add: oneMB_def in_i64_def)
text \<open>
  C5 (equivalence). The result of \<open>compressFileBlock\<close>, outcome and file system, is
  the same for every completion order of the workers: the workers write disjoint
  segment files, and the Reassembler sorts the names it receives.
\<close>

theorem compressFileBlock_order_independent:
  assumes "mset o1 = mset [0..<nat numThreads]" "mset o2 = mset [0..<nat numThreads]"
    and "in_i64 numThreads" "CHR ''/'' \<notin> set (go_base inputFile)"
  shows "compressFileBlock rd enc fs inputFile outputFile numThreads o1
       = compressFileBlock rd enc fs inputFile outputFile numThreads o2"
proof (cases "calculateSegment fs inputFile numThreads")
  case (Inr offset)
  then obtain content where content: "fs inputFile = Some content"
    by (cases "fs inputFile") (simp_all add: calculateSegment_def)
  define n where "n = nat numThreads"
  define R where "R = (\<lambda>i. part_result rd enc content inputFile (int i) (offset ! i))"
  define name where "name = (\<lambda>i. segment_file_name (int i) inputFile)"
  have n63: "n \<le> 2 ^ 63" using nat_in_i64 [OF assms(3)] by (simp add: n_def)
  have s1: "set o1 = {..<n}" and s2: "set o2 = {..<n}"
    using set_perm_upt [OF assms(1)] set_perm_upt [OF assms(2)] by (simp_all add: n_def)
  have m12: "mset o1 = mset o2" using assms(1,2) by simp
  have inj: "inj_on name (set o1)"
    using segment_names_inj [OF n63 assms(4)] s1 by (simp add: name_def)
  have files: "fold (\<lambda>i m. m(name i \<mapsto> snd (R i))) o1 fs = fold (\<lambda>i m. m(name i \<mapsto> snd (R i))) o2 fs"
    using fold_map_upd_perm [OF m12 inj] .
  let ?E = "\<lambda>order. concat (map (\<lambda>i. case fst (R i) of Inl e \<Rightarrow> [e] | Inr _ \<Rightarrow> []) order)"
  let ?N = "\<lambda>order. map (\<lambda>i. case fst (R i) of Inl _ \<Rightarrow> [] | Inr nm \<Rightarrow> nm) order"
  have errs: "(?E o1 = []) = (?E o2 = [])" using s1 s2 by simp
  have names: "?E order = [] \<Longrightarrow> ?N order = map name order" for order
  proof -
    assume "?E order = []"
    then have "\<forall>i\<in>set order. \<exists>x. fst (R i) = Inr x"
    proof (intro ballI)
      fix i assume "?E order = []" "i \<in> set order"
      then show "\<exists>x. fst (R i) = Inr x" by (cases "fst (R i)") auto
    qed
    then show "?N order = map name order"
      by (auto simp: name_def R_def dest: part_result_Inr split: sum.split)
  qed
  have run: "run_workers rd enc inputFile offset order \<lparr>files = fs, outputFiles = [], errors = []\<rparr>
      = \<lparr>files = fold (\<lambda>i m. m(name i \<mapsto> snd (R i))) order fs, outputFiles = ?N order, errors = ?E order\<rparr>" for order
    using run_workers_eq [of "\<lparr>files = fs, outputFiles = [], errors = []\<rparr>" inputFile content rd enc offset order]
      content unfolding name_def R_def by (simp only: pipeline.select_convs pipeline.update_convs append_Nil simp_thms)
  have cat: "concatenateFiles F (map name o1) outputFile = concatenateFiles F (map name o2) outputFile" for F
    unfolding name_def by (rule concatenateFiles_perm [OF assms(1,2) nat_in_i64 [OF assms(3)] assms(4)])
  let ?F = "\<lambda>order. fold (\<lambda>i m. m(name i \<mapsto> snd (R i))) order fs"
  have cfb: "compressFileBlock rd enc fs inputFile outputFile numThreads order =
      (if numThreads < 0 then (Some MakechanSizeOutOfRange, fs)
       else if ?E order \<noteq> [] then (Some SomeWorkerFailed, ?F order)
       else (None, snd (concatenateFiles (?F order) (?N order) outputFile)))" for order
    using Inr run [of order] by (simp add: compressFileBlock_def Let_def)
  show ?thesis
  proof (cases "?E o1 = []")
    case True
    then have T2: "?E o2 = []" using errs by simp
    show ?thesis
      unfolding cfb [of o1] cfb [of o2] names [OF True] names [OF T2] files cat using True T2 by simp
  next
    case False
    then have F2: "?E o2 \<noteq> []" using errs by blast
    show ?thesis
      unfolding cfb [of o1] cfb [of o2] files using False F2 by simp
  qed
qed (simp add: compressFileBlock_def)

theorem compressFileBlock_order_independent_witness:
  "compressFileBlock (const_reads oneMB) encode_frame [''in'' \<mapsto> [1, 2, 3]] ''in'' ''out'' 2 [0, 1]
   = compressFileBlock (const_reads oneMB) encode_frame [''in'' \<mapsto> [1, 2, 3]] ''in'' ''out'' 2 [1, 0]"
  by (rule compressFileBlock_order_independent) (simp_all add: in_i64_def go_base_def upt_rec)

text \<open>
  C17 (error). When some worker fails, \<open>compressFileBlock\<close> panics with "some
  errors see above" after every worker has finished, and every segment file, the
  failed worker's included, stays in the file system. The spec asks that the
  intermediate artifacts be released on every failure path.
\<close>

theorem compressFileBlock_worker_failed:
  assumes "fs inputFile = Some content" "int (length content) \<le> 2 ^ 63 - int oneMB"
    and "0 < numThreads" "in_i64 numThreads" "mset order = mset [0..<nat numThreads]"
    and "j < nat numThreads"
    and "fst (compressPart rd enc fs inputFile (int j) (plan (int (length content)) (nat numThreads) ! j)) = Inl e"
  shows "\<exists>fs'. compressFileBlock rd enc fs inputFile outputFile numThreads order = (Some SomeWorkerFailed, fs')
           \<and> (\<forall>i<nat numThreads. fs' (segment_file_name (int i) inputFile) \<noteq> None)"
proof -
  define R where "R = (\<lambda>i. part_result rd enc content inputFile (int i) (plan (int (length content)) (nat numThreads) ! i))"
  define name where "name = (\<lambda>i. segment_file_name (int i) inputFile)"
  have set_order: "set order = {..<nat numThreads}" using assms(5) by (rule set_perm_upt)
  have calc: "calculateSegment fs inputFile numThreads = Inr (plan (int (length content)) (nat numThreads))"
    using assms(1-4) by (simp add: calculateSegment_def divideFileIntoSegments_eq_plan)
  have Rj: "fst (R j) = Inl e" using assms(1,7) by (simp add: R_def compressPart_eq)
  let ?E = "concat (map (\<lambda>i. case fst (R i) of Inl e \<Rightarrow> [e] | Inr _ \<Rightarrow> []) order)"
  obtain xs ys where "order = xs @ j # ys"
    using assms(6) set_order split_list [of j order] by auto
  then have E: "?E \<noteq> []" by (simp add: Rj)
  let ?F = "fold (\<lambda>i m. m(name i \<mapsto> snd (R i))) order fs"
  have "compressFileBlock rd enc fs inputFile outputFile numThreads order = (Some SomeWorkerFailed, ?F)"
    using calc E assms(3)
      run_workers_eq [of "\<lparr>files = fs, outputFiles = [], errors = []\<rparr>" inputFile content rd enc
        "plan (int (length content)) (nat numThreads)" order] assms(1)
    by (simp add: compressFileBlock_def Let_def R_def name_def)
  moreover have "\<forall>i<nat numThreads. ?F (name i) \<noteq> None"
  proof (intro allI impI)
    fix i assume "i < nat numThreads"
    then have "i \<in> set order" using set_order by simp
    then show "?F (name i) \<noteq> None" by (rule fold_map_upd_some)
  qed
  ultimately show ?thesis by (auto simp: name_def)
qed

theorem compressFileBlock_worker_failed_witness:
  "\<exists>fs'. compressFileBlock (\<lambda>_. None) encode_frame [''in'' \<mapsto> [1, 2, 3]] ''in'' ''out'' 1 [0]
          = (Some SomeWorkerFailed, fs') \<and> fs' (segment_file_name 0 ''in'') \<noteq> None"
proof -
  have pl: "part_loop (\<lambda>_. None) encode_frame c e p [] = (Some ReadFailed, [])" for c e p
    by (subst part_loop.simps) simp
  have "\<exists>fs'. compressFileBlock (\<lambda>_. None) encode_frame [''in'' \<mapsto> [1, 2, 3]] ''in'' ''out'' 1 [0]
          = (Some SomeWorkerFailed, fs') \<and> (\<forall>i<nat 1. fs' (segment_file_name (int i) ''in'') \<noteq> None)"
  proof (rule compressFileBlock_worker_failed [where e = ReadFailed and j = 0])
    show "fst (compressPart (\<lambda>_. None) encode_frame [''in'' \<mapsto> [1, 2, 3]] ''in'' (int 0)
        (plan (int (length [1, 2, 3 :: byte])) (nat 1) ! 0)) = Inl ReadFailed"
      by (simp add: compressPart_def Let_def pl segment_file_name_neq)
  qed (simp_all add: oneMB_def in_i64_def)
  then show ?thesis by auto
qed

text \<open>
  C18 (error). The only outcomes of \<open>compressFileBlock\<close> are success, the stat error,
  and the panics of the planner, of \<open>make(chan)\<close> and of the error channel: an error
  of \<open>concatenateFiles\<close> (a missing segment, a failed create or copy) never reaches
  the caller, which reports success.
\<close>

theorem compressFileBlock_result:
  "fst (compressFileBlock rd enc fs inputFile outputFile numThreads order)
     \<in> {None, Some StatFailed, Some DivideByZero, Some MakechanSizeOutOfRange, Some SomeWorkerFailed}"
proof (cases "calculateSegment fs inputFile numThreads")
  case (Inl e)
  then show ?thesis using calculateSegment_Inl [OF Inl] by (auto simp: compressFileBlock_def)
qed (simp add: compressFileBlock_def Let_def)

text \<open>
  C22 (error). A worker count of zero ends in an integer-divide-by-zero panic in
  the planner, a negative one in the panic of \<open>make(chan string, numThreads)\<close>;
  neither is the configuration error the spec asks for, and the file system is
  unchanged.
\<close>

theorem compressFileBlock_nonpositive:
  assumes "fs inputFile = Some content" "numThreads \<le> 0"
  shows "compressFileBlock rd enc fs inputFile outputFile numThreads order
           = (Some (if numThreads = 0 then DivideByZero else MakechanSizeOutOfRange), fs)"
  using assms by (simp add: compressFileBlock_def calculateSegment_def divideFileIntoSegments_def Let_def)

theorem compressFileBlock_nonpositive_witness:
  "compressFileBlock (const_reads oneMB) encode_frame [''in'' \<mapsto> [1]] ''in'' ''out'' 0 []
     = (Some DivideByZero, [''in'' \<mapsto> [1]])
   \<and> compressFileBlock (const_reads oneMB) encode_frame [''in'' \<mapsto> [1]] ''in'' ''out'' (- 1) []
     = (Some MakechanSizeOutOfRange, [''in'' \<mapsto> [1]])"
  using compressFileBlock_nonpositive [of "[''in'' \<mapsto> [1]]" "''in''" "[1]" 0 "const_reads oneMB" encode_frame "''out''" "[]"]
    compressFileBlock_nonpositive [of "[''in'' \<mapsto> [1]]" "''in''" "[1]" "- 1" "const_reads oneMB" encode_frame "''out''" "[]"]
  by simp

end
