(* ===== verification/Cli.thy ===== *)
theory Cli
  imports Orchestrator
begin

text \<open>
  The command line tool: \<open>main\<close> of \<^verbatim>\<open>src/unnamed/part_000\<close>. The parsed flags are
  a record \<open>cli_opts\<close> (flag parsing itself, usage and version output are not
  modelled); the process state is the file system, standard input and standard
  output. \<open>main\<close> opens the input (the first argument, or standard input),
  creates the output (\<open>-o\<close>, unless \<open>-c\<close>), then decompresses, compresses in
  block mode or compresses as a stream. The input file is read after the output
  file was created, through a handle opened before: if both are the same path the
  input is read truncated. \<open>os.Exit(1)\<close> and panics end the run with a
  \<open>cli_exit\<close> value.
\<close>

section \<open>The code\<close>

record cli_opts =
  opt_d :: bool      \<comment> \<open>\<open>-d\<close>: decompress\<close>
  opt_c :: bool      \<comment> \<open>\<open>-c\<close>: write to standard output\<close>
  opt_o :: string    \<comment> \<open>\<open>-o\<close>: output file\<close>
  opt_l :: int       \<comment> \<open>\<open>-l\<close>: compression level\<close>
  opt_T :: int       \<comment> \<open>\<open>-T\<close>: worker count\<close>
  opt_b :: bool      \<comment> \<open>\<open>-b\<close>: block mode\<close>
  args :: "string list"

text \<open>The flags' default values, lines 259--264.\<close>

definition default_opts :: "string list \<Rightarrow> cli_opts" where
  "default_opts as = \<lparr>opt_d = False, opt_c = False, opt_o = [], opt_l = 3, opt_T = 2, opt_b = False, args = as\<rparr>"

datatype cli_exit = ExitOk | Exit1 failure | Crash failure

datatype sink = ToStdout | ToFile string

record proc =
  pfs :: fsys
  stdin :: bytes
  stdout :: bytes

text \<open>Writing the whole result to the output chosen in lines 287--299.\<close>

definition write_sink :: "sink \<Rightarrow> bytes \<Rightarrow> proc \<Rightarrow> proc" where
  "write_sink out data p =
     (case out of ToStdout \<Rightarrow> p\<lparr>stdout := stdout p @ data\<rparr>
      | ToFile f \<Rightarrow> p\<lparr>pfs := (pfs p)(f \<mapsto> data)\<rparr>)"

text \<open>
  Lines 301--327, once input and output are set up; \<open>src\<close> is the input file's
  path, or \<open>None\<close> for standard input. The test \<open>flag.NArg() < 0\<close> never holds.
\<close>

definition run_mode ::
  "reader \<Rightarrow> (bytes \<Rightarrow> bytes) \<Rightarrow> (bytes \<Rightarrow> bytes option) \<Rightarrow> nat list \<Rightarrow> cli_opts
   \<Rightarrow> string option \<Rightarrow> sink \<Rightarrow> proc \<Rightarrow> cli_exit \<times> proc" where
  "run_mode rd enc dec order opts src out p =
     (let input = (case src of None \<Rightarrow> stdin p | Some f \<Rightarrow> (case pfs p f of None \<Rightarrow> [] | Some c \<Rightarrow> c))
      in if opt_d opts then
           (case decompressFile dec input of
              Inl e \<Rightarrow> (Exit1 e, p)
            | Inr data \<Rightarrow> (ExitOk, write_sink out data p))
         else if opt_b opts then
           (if length (args opts) < 0 \<or> opt_o opts = [] then (Crash BlockModeNeedsFiles, p)
            else let inputFile = (case args opts of [] \<Rightarrow> [] | a # _ \<Rightarrow> a)
                 in case compressFileBlock rd enc (pfs p) inputFile (opt_o opts) (opt_T opts) order of
                      (None, fs') \<Rightarrow> (ExitOk, p\<lparr>pfs := fs'\<rparr>)
                    | (Some e, fs') \<Rightarrow> ((if is_panic e then Crash e else Exit1 e), p\<lparr>pfs := fs'\<rparr>))
         else (ExitOk, write_sink out (compressStream enc input) p))"

text \<open>Lines 257--299: the input is opened, the output created.\<close>

definition main ::
  "reader \<Rightarrow> (bytes \<Rightarrow> bytes) \<Rightarrow> (bytes \<Rightarrow> bytes option) \<Rightarrow> nat list \<Rightarrow> cli_opts \<Rightarrow> proc \<Rightarrow> cli_exit \<times> proc" where
  "main rd enc dec order opts p =
     (let src = (case args opts of [] \<Rightarrow> None | a # _ \<Rightarrow> Some a)
      in if (case src of Some f \<Rightarrow> pfs p f = None | None \<Rightarrow> False)
         then (Exit1 (OpenFailed (the src)), p)
         else if \<not> opt_c opts \<and> opt_o opts \<noteq> []
         then run_mode rd enc dec order opts src (ToFile (opt_o opts)) (p\<lparr>pfs := (pfs p)(opt_o opts \<mapsto> [])\<rparr>)
         else run_mode rd enc dec order opts src ToStdout p)"

section \<open>Properties\<close>

text \<open>
  C23 (error). Block mode without an input file does not stop at the guard meant
  for it (\<open>flag.NArg() < 0\<close> is never true): the run creates the output file,
  passes the empty path to \<open>compressFileBlock\<close> and fails in \<open>os.Stat\<close>, instead
  of the panic "Require option inputfile and -o".
\<close>

theorem main_block_without_input:
  assumes "out \<noteq> []" "pfs p [] = None"
  shows "main rd enc dec order ((default_opts [])\<lparr>opt_b := True, opt_o := out\<rparr>) p
           = (Exit1 StatFailed, p\<lparr>pfs := (pfs p)(out \<mapsto> [])\<rparr>)"
proof -
  have "out \<noteq> []" using assms(1) .
  then have "((pfs p)(out \<mapsto> [])) [] = None" using assms(2) by simp
  then show ?thesis
    using assms(1) by (simp add: main_def run_mode_def default_opts_def Let_def compressFileBlock_def calculateSegment_def)
qed

theorem main_block_without_input_witness:
  "main (const_reads oneMB) encode_frame decode_frames [0, 1] ((default_opts [])\<lparr>opt_b := True, opt_o := ''out''\<rparr>)
      \<lparr>pfs = Map.empty, stdin = [1, 2], stdout = []\<rparr>
   = (Exit1 StatFailed, \<lparr>pfs = [''out'' \<mapsto> []], stdin = [1, 2], stdout = []\<rparr>)"
  using main_block_without_input [of "''out''" "\<lparr>pfs = Map.empty, stdin = [1, 2], stdout = []\<rparr>"
      "const_reads oneMB" encode_frame decode_frames "[0, 1]"]
  by simp

text \<open>
  C6 (roundtrip). With a concatenation-safe codec, compressing a file in stream
  mode to \<open>g\<close> and decompressing \<open>g\<close> to \<open>h\<close> gives back the original contents.
\<close>

theorem main_stream_roundtrip:
  assumes "frame_law enc dec" "pfs p f = Some c" "g \<noteq> []" "h \<noteq> []" "g \<noteq> f" "h \<noteq> g"
  shows "\<exists>p1 p2. main rd enc dec order ((default_opts [f])\<lparr>opt_o := g\<rparr>) p = (ExitOk, p1)
           \<and> main rd enc dec order ((default_opts [g])\<lparr>opt_d := True, opt_o := h\<rparr>) p1 = (ExitOk, p2)
           \<and> pfs p2 h = Some c"
proof -
  have dec: "dec (enc c) = Some c"
    using assms(1) unfolding frame_law_def by (metis append_Nil2 concat.simps list.simps(8,9))
  let ?p1 = "p\<lparr>pfs := (pfs p)(g \<mapsto> enc c)\<rparr>"
  have m1: "main rd enc dec order ((default_opts [f])\<lparr>opt_o := g\<rparr>) p = (ExitOk, ?p1)"
    using assms(2,3,5) by (simp add: main_def run_mode_def default_opts_def Let_def write_sink_def compressStream_def)
  have m2: "main rd enc dec order ((default_opts [g])\<lparr>opt_d := True, opt_o := h\<rparr>) ?p1
      = (ExitOk, ?p1\<lparr>pfs := (pfs ?p1)(h \<mapsto> c)\<rparr>)"
    using assms(4,6) dec by (simp add: main_def run_mode_def default_opts_def Let_def write_sink_def decompressFile_def)
  show ?thesis using m1 m2 by auto
qed

theorem main_stream_roundtrip_witness:
  "\<exists>p1 p2. main (const_reads oneMB) encode_frame decode_frames [] ((default_opts [''a''])\<lparr>opt_o := ''b''\<rparr>)
              \<lparr>pfs = [''a'' \<mapsto> [1, 2]], stdin = [], stdout = []\<rparr> = (ExitOk, p1)
         \<and> main (const_reads oneMB) encode_frame decode_frames [] ((default_opts [''b''])\<lparr>opt_d := True, opt_o := ''c''\<rparr>) p1
              = (ExitOk, p2)
         \<and> pfs p2 ''c'' = Some [1, 2]"
  by (rule main_stream_roundtrip) (simp_all add: stored_frames_law)

text \<open>
  C24 (error). When \<open>-o\<close> names the input file, \<open>main\<close> truncates it before reading
  it: the run succeeds and the file ends up holding the compression of nothing;
  the input's contents are lost.
\<close>

theorem main_output_is_input:
  assumes "pfs p f = Some c" "f \<noteq> []"
  shows "main rd enc dec order ((default_opts [f])\<lparr>opt_o := f\<rparr>) p
           = (ExitOk, p\<lparr>pfs := (pfs p)(f \<mapsto> enc [])\<rparr>)"
  using assms by (simp add: main_def run_mode_def default_opts_def Let_def write_sink_def compressStream_def)

theorem main_output_is_input_witness:
  "main (const_reads oneMB) encode_frame decode_frames [] ((default_opts [''a''])\<lparr>opt_o := ''a''\<rparr>)
      \<lparr>pfs = [''a'' \<mapsto> [1, 2]], stdin = [], stdout = []\<rparr>
   = (ExitOk, \<lparr>pfs = [''a'' \<mapsto> encode_frame []], stdin = [], stdout = []\<rparr>)"
  using main_output_is_input [of "\<lparr>pfs = [''a'' \<mapsto> [1, 2]], stdin = [], stdout = []\<rparr>" "''a''" "[1, 2]"
      "const_reads oneMB" encode_frame decode_frames "[]"]
  by simp



end
