(* ===== verification/Block_LimitReader.thy ===== *)
theory Block_LimitReader
  imports Segment_Worker
begin

text \<open>
  The earlier block mode of \<^verbatim>\<open>src/play/tmp/main.go\<close>. \<open>compressFileBlock\<close> cuts
  the file into \<open>numThreads\<close> parts of \<open>fileSize / numThreads\<close> bytes, the last
  part taking the remainder; each worker reopens the input, seeks to its part and
  runs \<open>compressSegment\<close> on an \<open>io.LimitReader\<close> of the part's length, through a
  pipe whose far end collects the compressed bytes. The results are written in
  part order once every worker has finished; the first error received on the
  error channel is returned.

  \<open>seg_loop\<close> is \<open>compressSegment\<close>'s loop over the limited reader: a read asks
  for at most the 1 MiB buffer and at most what the limit leaves
  (\<open>LimitReader.Read\<close> truncates the buffer), and the limit reached is end of
  file. The pipe passes every byte written to it, so a part's collected data is
  what \<open>compressSegment\<close> wrote. The completion order of the workers, which decides
  which error is returned first, is the parameter \<open>order\<close>.
\<close>

section \<open>The code\<close>

function seg_loop ::
  "reader \<Rightarrow> (bytes \<Rightarrow> bytes) \<Rightarrow> bytes \<Rightarrow> nat \<Rightarrow> nat \<Rightarrow> bytes \<Rightarrow> failure option \<times> bytes" where
  "seg_loop rd enc content pos left written =
     (if left = 0 then (None, written)
      else case rd pos of
        None \<Rightarrow> (Some ReadFailed, written)
      | Some k \<Rightarrow>
          let n = min (min (min k oneMB) left) (length content - pos)
          in if n = 0 then (None, written)
             else seg_loop rd enc content (pos + n) (left - n) (written @ enc (take n (drop pos content))))"
  by pat_completeness auto
termination
  by (relation "measure (\<lambda>(rd, enc, content, pos, left, written). left)") auto

declare seg_loop.simps [simp del]

text \<open>The part of worker \<open>i\<close>, lines 58--62.\<close>

definition lr_part :: "int \<Rightarrow> int \<Rightarrow> nat \<Rightarrow> int \<times> int" where
  "lr_part fileSize numThreads i =
     (let partSize = go_quot fileSize numThreads;
          start = int i * partSize
      in (start, if int i = numThreads - 1 then fileSize else start + partSize))"

text \<open>Lines 64--102: worker \<open>i\<close>'s result, its error if any and its compressed data.\<close>

definition lr_worker ::
  "reader \<Rightarrow> (bytes \<Rightarrow> bytes) \<Rightarrow> fsys \<Rightarrow> string \<Rightarrow> int \<Rightarrow> nat \<Rightarrow> failure option \<times> bytes" where
  "lr_worker rd enc fs name numThreads i =
     (case fs name of
        None \<Rightarrow> (Some (OpenFailed name), [])
      | Some content \<Rightarrow>
          let (start, end) = lr_part (int (length content)) numThreads i
          in seg_loop rd enc content (nat start) (nat (end - start)) [])"

text \<open>
  Lines 42--125. \<open>fileSize / int64(numThreads)\<close> panics for zero workers,
  \<open>make(chan error, numThreads)\<close> for a negative count.
\<close>

definition lr_compressFileBlock ::
  "reader \<Rightarrow> (bytes \<Rightarrow> bytes) \<Rightarrow> fsys \<Rightarrow> string \<Rightarrow> int \<Rightarrow> nat list \<Rightarrow> failure + bytes" where
  "lr_compressFileBlock rd enc fs name numThreads order =
     (case fs name of
        None \<Rightarrow> Inl StatFailed
      | Some content \<Rightarrow>
          if numThreads = 0 then Inl DivideByZero
          else if numThreads < 0 then Inl MakechanSizeOutOfRange
          else let results = lr_worker rd enc fs name numThreads;
                   errs = concat (map (\<lambda>i. case fst (results i) of None \<Rightarrow> [] | Some e \<Rightarrow> [e]) order)
               in if errs \<noteq> [] then Inl (hd errs)
                  else Inr (concat (map (\<lambda>i. snd (results i)) [0..<nat numThreads])))"

text \<open>Where worker \<open>i\<close>'s part starts and ends, as byte positions.\<close>

definition lr_bound :: "nat \<Rightarrow> nat \<Rightarrow> nat \<Rightarrow> nat" where
  "lr_bound S t i = (if i < t then i * (S div t) else S)"

text \<open>The bytes of worker \<open>i\<close>'s part.\<close>

definition lr_bytes :: "bytes \<Rightarrow> int \<Rightarrow> nat \<Rightarrow> bytes" where
  "lr_bytes content numThreads i =
     (let (start, end) = lr_part (int (length content)) numThreads i
      in take (nat (end - start)) (drop (nat start) content))"

text \<open>The output of block compression when every worker succeeds, with reads of \<open>k\<close> bytes.\<close>

definition lr_output :: "(bytes \<Rightarrow> bytes) \<Rightarrow> nat \<Rightarrow> bytes \<Rightarrow> int \<Rightarrow> bytes" where
  "lr_output enc k content numThreads =
     concat (map (\<lambda>i. concat (map enc (chunks_of k (lr_bytes content numThreads i)))) [0..<nat numThreads])"

section \<open>Lemmas\<close>

lemma seg_loop_unfold:
  assumes "0 < left" "n = min (min (min k oneMB) left) (length content - pos)"
  shows "seg_loop (const_reads k) enc content pos left acc =
    (if n = 0 then (None, acc)
     else seg_loop (const_reads k) enc content (pos + n) (left - n) (acc @ enc (take n (drop pos content))))"
proof -
  have "(left = 0) = False" using assms(1) by simp
  then show ?thesis
    by (subst seg_loop.simps) (simp only: const_reads_def option.case Let_def assms(2) [symmetric] if_False)
qed

lemma seg_loop_exact:
  assumes "0 < c" "pos + left \<le> length content"
  shows "seg_loop (const_reads c) enc content pos left acc
           = (None, acc @ concat (map enc (chunks_of (min c oneMB) (take left (drop pos content)))))"
  using assms(2)
proof (induction left arbitrary: pos acc rule: less_induct)
  case (less left)
  show ?case
  proof (cases "left = 0")
    case True
    then show ?thesis by (simp add: seg_loop.simps)
  next
    case False
    define k where "k = min c oneMB"
    define n where "n = min (min (min c oneMB) left) (length content - pos)"
    have k: "0 < k" using assms(1) by (simp add: k_def)
    have nk: "n = min k left" using less.prems by (simp add: n_def k_def)
    have n0: "0 < n" using k False nk by simp
    have unf: "seg_loop (const_reads c) enc content pos left acc
        = seg_loop (const_reads c) enc content (pos + n) (left - n) (acc @ enc (take n (drop pos content)))"
      using seg_loop_unfold [OF _ n_def] False n0 by simp
    have ih: "seg_loop (const_reads c) enc content (pos + n) (left - n) (acc @ enc (take n (drop pos content)))
        = (None, (acc @ enc (take n (drop pos content)))
                 @ concat (map enc (chunks_of k (take (left - n) (drop (pos + n) content)))))"
      unfolding k_def using less.prems n0 nk by (intro less.IH) auto
    have "take left (drop pos content) \<noteq> []" using False less.prems by simp
    then have ch: "chunks_of k (take left (drop pos content))
        = take n (drop pos content) # chunks_of k (take (left - n) (drop (pos + n) content))"
      using k nk by (simp add: chunks_of_Cons_eq min_def drop_take add.commute)
    show ?thesis using unf ih ch by (simp add: k_def)
  qed
qed

lemma seg_loop_const_ok:
  assumes "0 < c"
  shows "fst (seg_loop (const_reads c) enc content pos left acc) = None"
proof (induction left arbitrary: pos acc rule: less_induct)
  case (less left)
  show ?case
  proof (cases "left = 0")
    case True
    then show ?thesis by (simp add: seg_loop.simps)
  next
    case False
    define n where "n = min (min (min c oneMB) left) (length content - pos)"
    show ?thesis
    proof (cases "n = 0")
      case True
      then show ?thesis using seg_loop_unfold [OF _ n_def] False by simp
    next
      case n0: False
      have "left - n < left" using n0 False by (simp add: n_def)
      then show ?thesis using seg_loop_unfold [OF _ n_def] False n0 less.IH by simp
    qed
  qed
qed

lemma part_start_le: "j \<le> t \<Longrightarrow> j * (S div t) \<le> (S::nat)"
proof -
  assume "j \<le> t"
  then have "j * (S div t) \<le> t * (S div t)" by simp
  also have "\<dots> \<le> S" by (simp add: mult.commute div_times_less_eq_dividend)
  finally show ?thesis .
qed

lemma lr_bound_le: "lr_bound S t i \<le> S"
  by (simp add: lr_bound_def part_start_le)

lemma lr_bound_mono: "lr_bound S t i \<le> lr_bound S t (Suc i)"
  by (auto simp: lr_bound_def intro: part_start_le)

lemma lr_part_bound:
  assumes "0 < numThreads" "i < nat numThreads"
  shows "nat (fst (lr_part (int S) numThreads i)) = lr_bound S (nat numThreads) i
       \<and> nat (snd (lr_part (int S) numThreads i)) = lr_bound S (nat numThreads) (Suc i)"
proof -
  define p where "p = S div nat numThreads"
  have q: "go_quot (int S) numThreads = int p"
    using assms(1) by (simp add: zdiv_int p_def)
  have c: "(int i = numThreads - 1) = (\<not> Suc i < nat numThreads)" using assms by auto
  have "lr_part (int S) numThreads i = (int (i * p), if \<not> Suc i < nat numThreads then int S else int (Suc i * p))"
    by (simp add: lr_part_def Let_def q c [symmetric] algebra_simps)
  then show ?thesis using assms(2) by (simp add: lr_bound_def p_def [symmetric] del: of_nat_mult of_nat_add)
qed

lemma lr_part_start_nonneg: "0 < numThreads \<Longrightarrow> 0 \<le> fst (lr_part (int S) numThreads i)"
  by (simp add: lr_part_def Let_def pos_imp_zdiv_nonneg_iff)

lemma lr_bytes_eq:
  assumes "0 < numThreads" "i < nat numThreads"
  shows "lr_bytes content numThreads i
           = byte_range (lr_bound (length content) (nat numThreads) i)
                        (lr_bound (length content) (nat numThreads) (Suc i)) content"
proof -
  obtain s e where se: "lr_part (int (length content)) numThreads i = (s, e)" by fastforce
  have b: "nat s = lr_bound (length content) (nat numThreads) i"
          "nat e = lr_bound (length content) (nat numThreads) (Suc i)"
    using lr_part_bound [OF assms, of "length content"] se by simp_all
  have "0 \<le> s" using lr_part_start_nonneg [OF assms(1), of "length content" i] se by simp
  then have "nat (e - s) = nat e - nat s" by simp
  then show ?thesis using se b by (simp add: lr_bytes_def byte_range_def)
qed

lemma lr_parts_concat:
  assumes "0 < numThreads"
  shows "concat (map (lr_bytes content numThreads) [0..<nat numThreads]) = content"
proof -
  let ?g = "lr_bound (length content) (nat numThreads)"
  have t: "0 < nat numThreads" using assms by simp
  have eq: "map (lr_bytes content numThreads) [0..<nat numThreads]
      = map (\<lambda>i. byte_range (?g i) (?g (Suc i)) content) [0..<nat numThreads]"
    using lr_bytes_eq [OF assms] by simp
  have "concat (map (\<lambda>i. byte_range (?g i) (?g (Suc i)) content) [0..<nat numThreads])
      = byte_range (?g 0) (?g (nat numThreads)) content"
    using lr_bound_mono by (rule byte_range_concat)
  also have "\<dots> = content" using t by (simp add: lr_bound_def)
  finally show ?thesis by (simp only: eq)
qed

lemma lr_worker_exact:
  assumes "fs name = Some content" "0 < numThreads" "i < nat numThreads" "0 < c"
  shows "lr_worker (const_reads c) enc fs name numThreads i
           = (None, concat (map enc (chunks_of (min c oneMB) (lr_bytes content numThreads i))))"
proof -
  obtain s e where se: "lr_part (int (length content)) numThreads i = (s, e)" by fastforce
  have b: "nat s = lr_bound (length content) (nat numThreads) i"
          "nat e = lr_bound (length content) (nat numThreads) (Suc i)"
    using lr_part_bound [OF assms(2,3), of "length content"] se by simp_all
  have s0: "0 \<le> s" using lr_part_start_nonneg [OF assms(2), of "length content" i] se by simp
  have d: "nat (e - s) = nat e - nat s" using s0 by simp
  have "nat s + nat (e - s) \<le> length content"
    unfolding d b using lr_bound_mono [of "length content" "nat numThreads" i]
      lr_bound_le [of "length content" "nat numThreads" "Suc i"] by linarith
  then show ?thesis
    using seg_loop_exact [OF assms(4)] assms(1) se by (simp add: lr_worker_def lr_bytes_def)
qed

lemma lr_compressFileBlock_const:
  assumes "fs name = Some content" "0 < numThreads" "0 < c"
  shows "lr_compressFileBlock (const_reads c) enc fs name numThreads order
           = Inr (lr_output enc (min c oneMB) content numThreads)"
proof -
  let ?k = "min c oneMB"
  let ?W = "lr_worker (const_reads c) enc fs name numThreads"
  have ok: "fst (?W i) = None" for i
    using assms(1) seg_loop_const_ok [OF assms(3)] by (simp add: lr_worker_def split: prod.split)
  have out: "map (\<lambda>i. snd (?W i)) [0..<nat numThreads]
      = map (\<lambda>i. concat (map enc (chunks_of ?k (lr_bytes content numThreads i)))) [0..<nat numThreads]"
    using lr_worker_exact [where fs = fs and name = name and content = content, OF assms(1,2) _ assms(3)] by simp
  show ?thesis
    using assms(1,2) ok by (simp add: lr_compressFileBlock_def lr_output_def Let_def out [symmetric])
qed

lemma lr_output_decodes:
  assumes "0 < numThreads" "0 < k" "frame_law enc dec"
  shows "dec (lr_output enc k content numThreads) = Some content"
proof -
  have "concat (concat (map (\<lambda>i. chunks_of k (lr_bytes content numThreads i)) [0..<nat numThreads])) = content"
    using lr_parts_concat [OF assms(1), of content] assms(2) by (simp add: concat_concat_chunks_of)
  then show ?thesis
    using assms(3) by (simp add: lr_output_def concat_map_concat_map frame_law_def)
qed

text \<open>
  C7 (roundtrip). In this variant every read is cut at the end of its part by
  the \<open>LimitReader\<close>, so for any positive worker count and any read size, and in
  any completion order, block compression succeeds and its output decodes to the
  input: unlike \<^verbatim>\<open>src/unnamed/part_000\<close>, short reads do no harm.
\<close>

theorem lr_compressFileBlock_roundtrip:
  assumes "fs name = Some content" "0 < numThreads" "0 < c" "frame_law enc dec"
  shows "\<exists>out. lr_compressFileBlock (const_reads c) enc fs name numThreads order = Inr out
           \<and> dec out = Some content"
  using lr_compressFileBlock_const [where fs = fs and name = name and content = content, OF assms(1-3)]
    lr_output_decodes [OF assms(2) _ assms(4)] assms(3)
  by simp

theorem lr_compressFileBlock_roundtrip_witness:
  "\<exists>out. lr_compressFileBlock (const_reads 2) encode_frame [''in'' \<mapsto> [1, 2, 3, 4, 5]] ''in'' 2 [1, 0] = Inr out
     \<and> decode_frames out = Some [1, 2, 3, 4, 5]"
  by (rule lr_compressFileBlock_roundtrip) (simp_all add: stored_frames_law)

text \<open>
  C26 (bounds). Every part but the last is \<open>fileSize div numThreads\<close> bytes long;
  the last takes the remainder and is shorter than that share plus the worker
  count. The parts are not aligned to the 1 MiB read size.
\<close>

theorem lr_part_lengths:
  assumes "0 < numThreads" "i < nat numThreads"
  shows "length (lr_bytes content numThreads i)
           = (if Suc i < nat numThreads then length content div nat numThreads
              else length content - i * (length content div nat numThreads))
         \<and> length (lr_bytes content numThreads i) < length content div nat numThreads + nat numThreads"
proof -
  let ?S = "length content" and ?t = "nat numThreads"
  have t: "0 < ?t" using assms(1) by simp
  have len: "length (lr_bytes content numThreads i) = lr_bound ?S ?t (Suc i) - lr_bound ?S ?t i"
    using lr_bytes_eq [OF assms] lr_bound_le [of ?S ?t "Suc i"] by (simp add: byte_range_def)
  define q where "q = ?S div ?t"
  have dm: "q * ?t + ?S mod ?t = ?S" by (simp add: q_def)
  have r: "?S mod ?t < ?t" using t by simp
  show ?thesis
  proof (cases "Suc i < ?t")
    case True
    have "length (lr_bytes content numThreads i) = Suc i * q - i * q"
      using len True assms(2) by (simp add: lr_bound_def q_def)
    then have "length (lr_bytes content numThreads i) = q" by simp
    then show ?thesis using True t by (simp add: q_def)
  next
    case False
    then have si: "Suc i = ?t" using assms(2) by simp
    then have iq: "i * q + q = q * ?t" by (metis mult.commute mult_Suc add.commute)
    have "length (lr_bytes content numThreads i) = ?S - i * q"
      using len False assms(2) by (simp add: lr_bound_def q_def)
    moreover have "?S - i * q < q + ?t" using dm r iq by linarith
    ultimately show ?thesis using False by (simp add: q_def)
  qed
qed

theorem lr_part_lengths_witness:
  "length (lr_bytes [1, 2, 3, 4, 5 :: byte] 2 1)
     = (if Suc 1 < nat 2 then length [1, 2, 3, 4, 5 :: byte] div nat 2
        else length [1, 2, 3, 4, 5 :: byte] - 1 * (length [1, 2, 3, 4, 5 :: byte] div nat 2))
   \<and> length (lr_bytes [1, 2, 3, 4, 5 :: byte] 2 1) < length [1, 2, 3, 4, 5 :: byte] div nat 2 + nat 2"
  by (rule lr_part_lengths) simp_all

end
