(* ===== verification/Worker_Pool.thy ===== *)
theory Worker_Pool
  imports Cli "HOL-Library.Multiset"
begin

text \<open>
  The worker-pool variant of \<^verbatim>\<open>src/unnamed/part_002\<close>. \<open>compressFile\<close> starts
  \<open>numThreads\<close> workers on an unbuffered channel of input chunks; a reader goroutine
  reads the input in reads of at most 1 MiB and sends each chunk; every worker
  compresses the chunks it receives with \<open>compressBlock\<close> and sends the result on
  an unbuffered result channel; the caller writes the results in the order they
  arrive and returns the first error. \<open>decompressFile\<close> reads the compressed input
  in reads of at most 1 MiB and decodes each read on its own.

  The reads are the \<open>reader\<close> parameter of \<open>Segment_Worker\<close>. The streaming
  encoder of the library is the parameter \<open>ew\<close>: \<open>ew x\<close> is what the encoder has
  put into \<open>buf\<close> when \<open>encoder.Write(x)\<close> returns. \<open>compressBlock\<close> returns
  \<open>buf.Bytes()\<close> at that point; its deferred \<open>encoder.Close()\<close> runs after the
  return value is taken, so what Close flushes is never part of the result. The
  model makes no assumption on \<open>ew\<close> beyond the ones a theorem states. The
  arrival order of the results is the parameter \<open>order\<close>, a list of chunk
  indices; the index just past the last chunk stands for the reader's error
  result. The writes to the output cannot fail (the output is a byte string), and
  neither can \<open>compressBlock\<close>. Not modelled: the reuse of \<open>buf\<close> by the reader while a worker may still
  be compressing the previous chunk (a data race of the code).
\<close>

section \<open>The code\<close>

text \<open>
  Lines 14--29: the result is the encoder's output as it stands after
  \<open>Write\<close>, before the deferred \<open>Close\<close>.
\<close>

definition compressBlock :: "(bytes \<Rightarrow> bytes) \<Rightarrow> bytes \<Rightarrow> bytes" where
  "compressBlock ew input = (let buf = ew input in buf)"


text \<open>Lines 73--89: the reader goroutine; the chunks read, and whether a read failed.\<close>

function pool_read :: "reader \<Rightarrow> bytes \<Rightarrow> nat \<Rightarrow> bytes list \<times> bool" where
  "pool_read rd content pos =
     (case rd pos of
        None \<Rightarrow> ([], True)
      | Some k \<Rightarrow>
          let n = min (min k oneMB) (length content - pos)
          in if n = 0 then ([], False)
             else let (rest, failed) = pool_read rd content (pos + n)
                  in (take n (drop pos content) # rest, failed))"
  by pat_completeness auto
termination
  by (relation "measure (\<lambda>(rd, content, pos). length content - pos)") (auto simp: min_def oneMB_def)

declare pool_read.simps [simp del]

text \<open>Lines 97--105: the results written in the order they arrive.\<close>

fun pool_emit :: "(bytes \<Rightarrow> bytes) \<Rightarrow> bytes list \<Rightarrow> nat list \<Rightarrow> bytes \<Rightarrow> failure option \<times> bytes" where
  "pool_emit blk chunks [] out = (None, out)"
| "pool_emit blk chunks (i # arrivals) out =
     (if length chunks \<le> i then (Some ReadFailed, out)
      else pool_emit blk chunks arrivals (out @ blk (chunks ! i)))"

text \<open>
  Lines 47--108. With no worker nobody receives from the chunk channel: the
  closing goroutine closes the result channel at once and the caller returns with
  nothing written, while the reader stays blocked (or, if its first read fails,
  sends its error on the closed result channel, which panics).
\<close>

definition pool_compressFile ::
  "reader \<Rightarrow> (bytes \<Rightarrow> bytes) \<Rightarrow> bytes \<Rightarrow> int \<Rightarrow> nat list \<Rightarrow> failure option \<times> bytes" where
  "pool_compressFile rd ew content numThreads order =
     (if numThreads \<le> 0 then (None, [])
      else pool_emit (compressBlock ew) (fst (pool_read rd content 0)) order [])"





section \<open>Lemmas\<close>

lemma pool_read_const:
  assumes "0 < c"
  shows "pool_read (const_reads c) content pos = (chunks_of (min c oneMB) (drop pos content), False)"
proof (induction "length content - pos" arbitrary: pos rule: less_induct)
  case less
  define n where "n = min (min c oneMB) (length content - pos)"
  have k: "0 < min c oneMB" using assms by simp
  show ?case
  proof (cases "n = 0")
    case True
    then have "drop pos content = []" using k by (simp add: n_def min_def split: if_splits)
    then show ?thesis using True by (subst pool_read.simps) (simp add: const_reads_def n_def [symmetric])
  next
    case False
    have ih: "pool_read (const_reads c) content (pos + n) = (chunks_of (min c oneMB) (drop (pos + n) content), False)"
    proof (rule less.hyps)
      have "0 < n" using False by simp
      moreover have "n \<le> length content - pos" by (simp add: n_def)
      ultimately show "length content - (pos + n) < length content - pos" by linarith
    qed
    have "drop pos content \<noteq> []" using False by (auto simp: n_def)
    then have ch: "chunks_of (min c oneMB) (drop pos content)
        = take n (drop pos content) # chunks_of (min c oneMB) (drop (pos + n) content)"
      using k by (simp add: chunks_of_Cons_eq n_def min_def add.commute)
    show ?thesis using False ih ch
      by (subst pool_read.simps) (simp add: const_reads_def n_def [symmetric] Let_def)
  qed
qed

lemma pool_emit_valid:
  "set order \<subseteq> {..<length chunks}
   \<Longrightarrow> pool_emit blk chunks order out = (None, out @ concat (map (\<lambda>i. blk (chunks ! i)) order))"
  by (induction order arbitrary: out) auto

text \<open>
  C39 (type). Whatever the reads return, every chunk the reader goroutine sends
  is a non-empty slice of at most \<open>blockSize\<close> (1 MiB) bytes, and the chunks
  are consecutive bytes of the input from the start position on.
\<close>

theorem pool_read_chunks:
  "(\<forall>ch \<in> set (fst (pool_read rd content pos)). ch \<noteq> [] \<and> length ch \<le> oneMB)
   \<and> (\<exists>m. concat (fst (pool_read rd content pos)) = take m (drop pos content))"
proof (induction rd content pos rule: pool_read.induct)
  case (1 rd content pos)
  show ?case
  proof (cases "rd pos")
    case None
    then show ?thesis by (simp add: pool_read.simps [of rd content pos] exI [of _ 0])
  next
    case (Some k)
    define n where "n = min (min k oneMB) (length content - pos)"
    show ?thesis
    proof (cases "n = 0")
      case True
      then show ?thesis using Some by (simp add: pool_read.simps [of rd content pos] n_def [symmetric] exI [of _ 0])
    next
      case False
      obtain rest failed where r: "pool_read rd content (pos + n) = (rest, failed)" by fastforce
      have ih: "(\<forall>ch \<in> set rest. ch \<noteq> [] \<and> length ch \<le> oneMB)
          \<and> (\<exists>m. concat rest = take m (drop (pos + n) content))"
        using "1" [OF Some, of n] False r by (simp add: n_def)
      then obtain m where m: "concat rest = take m (drop (pos + n) content)" by blast
      have hd: "take n (drop pos content) \<noteq> [] \<and> length (take n (drop pos content)) \<le> oneMB"
        using False by (auto simp: n_def)
      have "take n (drop pos content) @ concat rest = take (n + m) (drop pos content)"
        using m by (simp only: take_add drop_drop add.commute [of pos n])
      then show ?thesis using Some False r ih hd
        by (auto simp: pool_read.simps [of rd content pos] n_def [symmetric] Let_def)
    qed
  qed
qed

theorem pool_read_chunks_witness:
  "fst (pool_read (const_reads 1) [1, 2] 0) = [[1], [2]]
   \<and> length [2 :: byte] \<le> oneMB \<and> (\<exists>m. [1, 2 :: byte] = take m [1, 2])"
proof -
  have r: "fst (pool_read (const_reads 1) [1, 2 :: byte] 0) = [[1], [2]]"
    by (simp add: pool_read.simps const_reads_def oneMB_def)
  show ?thesis using pool_read_chunks [of "const_reads 1" "[1, 2]" 0] r by simp
qed

text \<open>
  C28 (functional). The worker pool writes the compressed chunks in the order the
  workers finish, not in input order: even with an encoder that has written
  whole frames when \<open>Write\<close> returns, the output decodes to the chunks in
  completion order.
\<close>

theorem pool_output_order:
  assumes "0 < numThreads" "0 < c" "frame_law ew dec"
    and "mset order = mset [0..<length (chunks_of (min c oneMB) content)]"
  shows "\<exists>out. pool_compressFile (const_reads c) ew content numThreads order = (None, out)
           \<and> dec out = Some (concat (map (\<lambda>i. chunks_of (min c oneMB) content ! i) order))"
proof -
  have "set order \<subseteq> {..<length (chunks_of (min c oneMB) content)}"
    using mset_eq_setD [OF assms(4)] by (simp only: set_upt atLeast0LessThan subset_refl)
  then have "pool_compressFile (const_reads c) ew content numThreads order
      = (None, concat (map (\<lambda>i. ew (chunks_of (min c oneMB) content ! i)) order))"
    using assms(1) by (simp only: pool_compressFile_def pool_read_const [OF assms(2)] drop_0 fst_conv
        pool_emit_valid append_Nil) (simp add: compressBlock_def)
  moreover have "dec (concat (map (\<lambda>i. ew (chunks_of (min c oneMB) content ! i)) order))
      = Some (concat (map (\<lambda>i. chunks_of (min c oneMB) content ! i) order))"
    using assms(3) unfolding frame_law_def
    by (drule_tac x = "map (\<lambda>i. chunks_of (min c oneMB) content ! i) order" in spec) (simp only: map_map comp_def)
  ultimately show ?thesis by blast
qed

theorem pool_output_order_witness:
  "\<exists>out. pool_compressFile (const_reads 1) encode_frame [1, 2] 1 [1, 0] = (None, out)
     \<and> decode_frames out = Some [2, 1]"
proof -
  have m: "min 1 oneMB = 1" by (simp add: oneMB_def)
  have ch: "chunks_of 1 [1, 2 :: byte] = [[1], [2]]"
    by (simp add: chunks_of.simps)
  have "\<exists>out. pool_compressFile (const_reads 1) encode_frame [1, 2] 1 [1, 0] = (None, out)
     \<and> decode_frames out = Some (concat (map (\<lambda>i. chunks_of (min 1 oneMB) [1, 2 :: byte] ! i) [1, 0]))"
    by (rule pool_output_order) (simp_all only: m ch stored_frames_law, simp_all)
  then show ?thesis by (simp only: m ch) simp
qed







end
