(* ===== verification/Pool_Channels.thy ===== *)
theory Pool_Channels
  imports Worker_Pool
begin

text \<open>
  The goroutines of \<open>compressFile\<close> in \<^verbatim>\<open>src/unnamed/part_002\<close> (lines 47--108)
  as a step relation. The reader goroutine, the \<open>numThreads\<close> workers, the
  goroutine that closes \<open>results\<close> after \<open>wg.Wait()\<close> and the caller's loop over
  \<open>results\<close> each take steps in any interleaving; both channels are unbuffered,
  so a send and its receive are one step. The chunks the reader reads and
  whether its last read fails are fixed (\<open>chs\<close>, \<open>failed\<close>: the result of
  \<open>pool_read\<close>). The theorems show that every run stops, that with at least one
  worker every run can end with the caller's return, and that the output of a
  run is \<open>pool_emit\<close> of a completion order: the abstraction the function model
  of \<open>Worker_Pool\<close> makes.
\<close>

section \<open>State and steps\<close>

text \<open>A worker: waiting on \<open>inputChunks\<close>, holding chunk \<open>i\<close>, or returned.\<close>

datatype wstate = WIdle | WHas nat | WExit

record pool_st =
  rd_next :: nat               \<comment> \<open>the reader's \<open>index\<close>: chunks sent so far\<close>
  rd_done :: bool              \<comment> \<open>the reader returned and closed \<open>inputChunks\<close>\<close>
  wk :: "nat \<Rightarrow> wstate"         \<comment> \<open>the workers \<open>0 ..< numThreads\<close>\<close>
  res_closed :: bool           \<comment> \<open>\<open>close(results)\<close> ran\<close>
  out :: bytes                 \<comment> \<open>written to \<open>output\<close>\<close>
  err :: "failure option"      \<comment> \<open>the error \<open>compressFile\<close> returns\<close>
  main_done :: bool            \<comment> \<open>\<open>compressFile\<close> returned\<close>

definition pool_init :: pool_st where
  "pool_init = \<lparr>rd_next = 0, rd_done = False, wk = (\<lambda>_. WIdle), res_closed = False,
                out = [], err = None, main_done = False\<rparr>"

inductive pool_step :: "bytes list \<Rightarrow> bool \<Rightarrow> (bytes \<Rightarrow> bytes) \<Rightarrow> nat \<Rightarrow> pool_st \<Rightarrow> pool_st \<Rightarrow> bool"
  for chs failed blk n where
  \<comment> \<open>line 86 meets line 65: worker \<open>w\<close> receives the next chunk\<close>
  send: "rd_next s < length chs \<Longrightarrow> w < n \<Longrightarrow> wk s w = WIdle \<Longrightarrow>
     pool_step chs failed blk n s (s\<lparr>rd_next := Suc (rd_next s), wk := (wk s)(w := WHas (rd_next s))\<rparr>)"
  \<comment> \<open>lines 83--84 and 74: the last read returned nothing, the reader closes \<open>inputChunks\<close>\<close>
| reader_end: "rd_next s = length chs \<Longrightarrow> \<not> failed \<Longrightarrow> \<not> rd_done s \<Longrightarrow>
     pool_step chs failed blk n s (s\<lparr>rd_done := True\<rparr>)"
  \<comment> \<open>line 80 meets lines 97--99: the read error reaches the caller, which returns it\<close>
| reader_err: "rd_next s = length chs \<Longrightarrow> failed \<Longrightarrow> \<not> rd_done s \<Longrightarrow> \<not> res_closed s \<Longrightarrow> \<not> main_done s \<Longrightarrow>
     pool_step chs failed blk n s (s\<lparr>rd_done := True, err := Some ReadFailed, main_done := True\<rparr>)"
  \<comment> \<open>line 80 after line 94: a send on the closed \<open>results\<close> panics\<close>
| reader_panic: "rd_next s = length chs \<Longrightarrow> failed \<Longrightarrow> \<not> rd_done s \<Longrightarrow> res_closed s \<Longrightarrow> \<not> main_done s \<Longrightarrow>
     pool_step chs failed blk n s (s\<lparr>rd_done := True, err := Some SendOnClosedChannel, main_done := True\<rparr>)"
  \<comment> \<open>lines 66--67 meet lines 97--101: worker \<open>w\<close>'s result is written\<close>
| deliver: "w < n \<Longrightarrow> wk s w = WHas i \<Longrightarrow> \<not> main_done s \<Longrightarrow>
     pool_step chs failed blk n s (s\<lparr>out := out s @ blk (chs ! i), wk := (wk s)(w := WIdle)\<rparr>)"
  \<comment> \<open>line 65: \<open>inputChunks\<close> is closed, the worker's range loop ends\<close>
| worker_exit: "w < n \<Longrightarrow> wk s w = WIdle \<Longrightarrow> rd_done s \<Longrightarrow>
     pool_step chs failed blk n s (s\<lparr>wk := (wk s)(w := WExit)\<rparr>)"
  \<comment> \<open>lines 92--95: every worker returned, \<open>results\<close> is closed\<close>
| closer: "\<forall>w < n. wk s w = WExit \<Longrightarrow> \<not> res_closed s \<Longrightarrow>
     pool_step chs failed blk n s (s\<lparr>res_closed := True\<rparr>)"
  \<comment> \<open>lines 97 and 107: the range over the closed \<open>results\<close> ends\<close>
| main_end: "res_closed s \<Longrightarrow> \<not> main_done s \<Longrightarrow>
     pool_step chs failed blk n s (s\<lparr>main_done := True\<rparr>)"

text \<open>
  The termination measure: chunks left to send count four, a worker waiting
  two, a worker holding a chunk three, and each of the reader, the closer and
  the caller one until it is done.
\<close>

fun wval :: "wstate \<Rightarrow> nat" where
  "wval WIdle = 2"
| "wval (WHas i) = 3"
| "wval WExit = 0"

definition pool_measure :: "bytes list \<Rightarrow> nat \<Rightarrow> pool_st \<Rightarrow> nat" where
  "pool_measure chs n s = 4 * (length chs - rd_next s) + (\<Sum>w < n. wval (wk s w))
     + (if rd_done s then 0 else 1) + (if res_closed s then 0 else 1) + (if main_done s then 0 else 1)"

text \<open>
  The invariant of the reachable states. \<open>held\<close> is the set of chunks the
  workers hold; \<open>pool_ctl\<close> relates the goroutines' control states,
  \<open>pool_written\<close> says the output is the frames of the chunks sent and no longer
  held, each once, in some order.
\<close>

definition held :: "nat \<Rightarrow> (nat \<Rightarrow> wstate) \<Rightarrow> nat set" where
  "held n f = {i. \<exists>w<n. f w = WHas i}"

definition pool_ctl :: "bytes list \<Rightarrow> bool \<Rightarrow> nat \<Rightarrow> pool_st \<Rightarrow> bool" where
  "pool_ctl chs failed n s \<longleftrightarrow>
     rd_next s \<le> length chs
   \<and> (rd_done s \<longrightarrow> rd_next s = length chs)
   \<and> (\<forall>w<n. wk s w = WExit \<longrightarrow> rd_done s)
   \<and> (res_closed s \<longrightarrow> (\<forall>w<n. wk s w = WExit))
   \<and> (\<forall>w<n. \<forall>v<n. \<forall>i. wk s w = WHas i \<longrightarrow> wk s v = WHas i \<longrightarrow> w = v)
   \<and> held n (wk s) \<subseteq> {..<rd_next s}
   \<and> (main_done s \<longrightarrow> res_closed s \<or> err s \<noteq> None)
   \<and> (err s \<noteq> None \<longrightarrow> main_done s \<and> rd_done s \<and> failed
        \<and> (err s = Some ReadFailed \<or> err s = Some SendOnClosedChannel \<and> n = 0))
   \<and> (n = 0 \<longrightarrow> rd_next s = 0)"

definition pool_written :: "bytes list \<Rightarrow> (bytes \<Rightarrow> bytes) \<Rightarrow> nat \<Rightarrow> pool_st \<Rightarrow> bool" where
  "pool_written chs blk n s \<longleftrightarrow>
     (\<exists>ord. distinct ord \<and> set ord = {..<rd_next s} - held n (wk s)
            \<and> out s = concat (map (\<lambda>i. blk (chs ! i)) ord))"

section \<open>Lemmas\<close>

lemma sum_fun_upd:
  assumes "w \<in> A" "finite A"
  shows "(\<Sum>v\<in>A. g ((f(w := x)) v)) + g (f w) = (\<Sum>v\<in>A. g (f v)) + g x"
proof -
  have "(\<Sum>v\<in>A. g ((f(w := x)) v)) = g x + (\<Sum>v\<in>A - {w}. g ((f(w := x)) v))"
    using assms by (simp add: sum.remove)
  moreover have "(\<Sum>v\<in>A. g (f v)) = g (f w) + (\<Sum>v\<in>A - {w}. g (f v))"
    using assms by (simp add: sum.remove)
  moreover have "(\<Sum>v\<in>A - {w}. g ((f(w := x)) v)) = (\<Sum>v\<in>A - {w}. g (f v))"
    by (rule sum.cong) auto
  ultimately show ?thesis by (simp add: ac_simps)
qed

lemma pool_step_measure:
  "pool_step chs failed blk n s t \<Longrightarrow> pool_measure chs n t < pool_measure chs n s"
proof (induction rule: pool_step.induct)
  case (send s w)
  have "(\<Sum>v<n. wval (((wk s)(w := WHas (rd_next s))) v)) + 2 = (\<Sum>v<n. wval (wk s v)) + 3"
    using sum_fun_upd [of w "{..<n}" wval "wk s" "WHas (rd_next s)"] send by simp
  with send show ?case by (simp add: pool_measure_def)
next
  case (deliver w s i)
  have "(\<Sum>v<n. wval (((wk s)(w := WIdle)) v)) + 3 = (\<Sum>v<n. wval (wk s v)) + 2"
    using sum_fun_upd [of w "{..<n}" wval "wk s" WIdle] deliver by simp
  with deliver show ?case by (simp add: pool_measure_def)
next
  case (worker_exit w s)
  have "(\<Sum>v<n. wval (((wk s)(w := WExit)) v)) + 2 = (\<Sum>v<n. wval (wk s v))"
    using sum_fun_upd [of w "{..<n}" wval "wk s" WExit] worker_exit by simp
  with worker_exit show ?case by (simp add: pool_measure_def)
qed (simp_all add: pool_measure_def)

lemma held_fun_upd:
  "w < n \<Longrightarrow> held n (f(w := x)) = {i. \<exists>v<n. v \<noteq> w \<and> f v = WHas i} \<union> {i. x = WHas i}"
  unfolding held_def by (rule set_eqI) (auto simp: fun_upd_apply)

lemma held_all_exit: "\<forall>w<n. f w = WExit \<Longrightarrow> held n f = {}"
  by (auto simp: held_def)

lemma pool_ctl_init: "pool_ctl chs failed n pool_init"
  by (simp add: pool_ctl_def pool_init_def held_def)

lemma pool_written_init: "pool_written chs blk n pool_init"
  by (simp add: pool_written_def pool_init_def held_def)

lemma pool_ctl_D:
  assumes "pool_ctl chs failed n s"
  shows "rd_next s \<le> length chs" "rd_done s \<Longrightarrow> rd_next s = length chs"
    "\<And>w. w < n \<Longrightarrow> wk s w = WExit \<Longrightarrow> rd_done s"
    "res_closed s \<Longrightarrow> w < n \<Longrightarrow> wk s w = WExit"
    "\<And>w v i. w < n \<Longrightarrow> v < n \<Longrightarrow> wk s w = WHas i \<Longrightarrow> wk s v = WHas i \<Longrightarrow> w = v"
    "held n (wk s) \<subseteq> {..<rd_next s}"
    "main_done s \<Longrightarrow> res_closed s \<or> err s \<noteq> None"
    "err s \<noteq> None \<Longrightarrow> main_done s \<and> rd_done s \<and> failed
        \<and> (err s = Some ReadFailed \<or> err s = Some SendOnClosedChannel \<and> n = 0)"
    "n = 0 \<Longrightarrow> rd_next s = 0"
  using assms unfolding pool_ctl_def by auto

lemma held_other:
  assumes "\<forall>i. f w \<noteq> WHas i"
  shows "{i. \<exists>v<n. v \<noteq> w \<and> f v = WHas i} = held n f"
proof (rule set_eqI)
  fix i
  show "i \<in> {i. \<exists>v<n. v \<noteq> w \<and> f v = WHas i} \<longleftrightarrow> i \<in> held n f"
  proof
    assume "i \<in> held n f"
    then obtain v where v: "v < n" "f v = WHas i" by (auto simp: held_def)
    then have "v \<noteq> w" using assms by auto
    with v show "i \<in> {i. \<exists>v<n. v \<noteq> w \<and> f v = WHas i}" by blast
  qed (auto simp: held_def)
qed

lemma held_upd_send:
  assumes "w < n" "f w = WIdle"
  shows "held n (f(w := WHas j)) = insert j (held n f)"
proof -
  have "{i. \<exists>v<n. v \<noteq> w \<and> f v = WHas i} = held n f" using assms(2) by (intro held_other) simp
  moreover have "{i. WHas j = WHas i} = {j}" by auto
  ultimately show ?thesis using held_fun_upd [of w n f "WHas j"] assms(1) by simp
qed

lemma held_upd_exit:
  assumes "w < n" "f w = WIdle"
  shows "held n (f(w := WExit)) = held n f"
proof -
  have "{i. \<exists>v<n. v \<noteq> w \<and> f v = WHas i} = held n f" using assms(2) by (intro held_other) simp
  then show ?thesis using held_fun_upd [of w n f WExit] assms(1) by simp
qed

lemma held_upd_deliver:
  assumes "w < n" "f w = WHas i" "\<forall>v<n. f v = WHas i \<longrightarrow> v = w"
  shows "held n (f(w := WIdle)) = held n f - {i}"
proof -
  have "{j. \<exists>v<n. v \<noteq> w \<and> f v = WHas j} = held n f - {i}"
  proof (rule set_eqI)
    fix j
    show "j \<in> {j. \<exists>v<n. v \<noteq> w \<and> f v = WHas j} \<longleftrightarrow> j \<in> held n f - {i}"
    proof
      assume "j \<in> {j. \<exists>v<n. v \<noteq> w \<and> f v = WHas j}"
      then obtain v where v: "v < n" "v \<noteq> w" "f v = WHas j" by blast
      then have "j \<noteq> i" using assms(3) by auto
      with v show "j \<in> held n f - {i}" unfolding held_def by blast
    next
      assume "j \<in> held n f - {i}"
      then obtain v where v: "v < n" "f v = WHas j" "j \<noteq> i" unfolding held_def by blast
      then have "v \<noteq> w" using assms(2) by auto
      with v show "j \<in> {j. \<exists>v<n. v \<noteq> w \<and> f v = WHas j}" by blast
    qed
  qed
  then show ?thesis using held_fun_upd [of w n f WIdle] assms(1) by simp
qed

lemma pool_ctl_send:
  assumes "pool_ctl chs failed n s" "rd_next s < length chs" "w < n" "wk s w = WIdle"
  shows "pool_ctl chs failed n (s\<lparr>rd_next := Suc (rd_next s), wk := (wk s)(w := WHas (rd_next s))\<rparr>)"
proof -
  note c = pool_ctl_D [OF assms(1)]
  have nd: "\<not> rd_done s" using c(2) assms(2) by auto
  have nc: "\<not> res_closed s" using c(4) [of w] assms(3,4) by auto
  have ne: "err s = None" using c(8) nd by (cases "err s") auto
  have nm: "\<not> main_done s" using c(7) nc ne by auto
  have nh: "rd_next s \<notin> held n (wk s)" using c(6) by auto
  have u: "\<forall>x<n. \<forall>v<n. \<forall>i. ((wk s)(w := WHas (rd_next s))) x = WHas i
      \<longrightarrow> ((wk s)(w := WHas (rd_next s))) v = WHas i \<longrightarrow> x = v"
  proof (intro allI impI)
    fix x v i
    assume "x < n" "v < n" "((wk s)(w := WHas (rd_next s))) x = WHas i" "((wk s)(w := WHas (rd_next s))) v = WHas i"
    then show "x = v" using c(5) [of x v i] nh unfolding held_def
      by (cases "x = w"; cases "v = w") auto
  qed
  have ex: "\<forall>x<n. ((wk s)(w := WHas (rd_next s))) x \<noteq> WExit"
    using c(3) nd by (auto simp: fun_upd_apply)
  have h: "held n ((wk s)(w := WHas (rd_next s))) \<subseteq> {..<Suc (rd_next s)}"
    using c(6) assms(3,4) by (auto simp: held_upd_send)
  show ?thesis unfolding pool_ctl_def
    apply (intro conjI)
    subgoal using assms(2) by simp
    subgoal using nd by simp
    subgoal using ex by simp
    subgoal using nc by simp
    subgoal using u by simp
    subgoal using h by simp
    subgoal using nm by simp
    subgoal using ne by simp
    subgoal using assms(3) by simp
    done
qed

lemma pool_ctl_deliver:
  assumes "pool_ctl chs failed n s" "w < n" "wk s w = WHas i"
  shows "pool_ctl chs failed n (s\<lparr>out := out s @ b, wk := (wk s)(w := WIdle)\<rparr>)"
proof -
  note c = pool_ctl_D [OF assms(1)]
  have nc: "\<not> res_closed s" using c(4) [of w] assms(2,3) by auto
  have uq: "\<forall>v<n. wk s v = WHas i \<longrightarrow> v = w" using c(5) assms(2,3) by blast
  have h: "held n ((wk s)(w := WIdle)) \<subseteq> {..<rd_next s}"
    using c(6) held_upd_deliver [OF assms(2,3) uq] by blast
  have ex: "\<forall>x<n. ((wk s)(w := WIdle)) x = WExit \<longrightarrow> rd_done s"
    using c(3) by (auto simp: fun_upd_apply)
  have u: "\<forall>x<n. \<forall>v<n. \<forall>j. ((wk s)(w := WIdle)) x = WHas j \<longrightarrow> ((wk s)(w := WIdle)) v = WHas j \<longrightarrow> x = v"
  proof (intro allI impI)
    fix x v j
    assume "x < n" "v < n" "((wk s)(w := WIdle)) x = WHas j" "((wk s)(w := WIdle)) v = WHas j"
    then show "x = v" using c(5) [of x v j] by (cases "x = w"; cases "v = w") auto
  qed
  show ?thesis unfolding pool_ctl_def
    apply (intro conjI)
    subgoal using c(1) by simp
    subgoal using c(2) by simp
    subgoal using ex by simp
    subgoal using nc by simp
    subgoal using u by simp
    subgoal using h by simp
    subgoal using c(7) by simp
    subgoal using c(8) by simp
    subgoal using c(9) by simp
    done
qed

lemma pool_ctl_exit:
  assumes "pool_ctl chs failed n s" "w < n" "wk s w = WIdle" "rd_done s"
  shows "pool_ctl chs failed n (s\<lparr>wk := (wk s)(w := WExit)\<rparr>)"
proof -
  note c = pool_ctl_D [OF assms(1)]
  have nc: "\<not> res_closed s" using c(4) [of w] assms(2,3) by auto
  have h: "held n ((wk s)(w := WExit)) = held n (wk s)"
    using held_upd_exit [of w n "wk s"] assms(2,3) by simp
  have u: "\<forall>x<n. \<forall>v<n. \<forall>j. ((wk s)(w := WExit)) x = WHas j \<longrightarrow> ((wk s)(w := WExit)) v = WHas j \<longrightarrow> x = v"
  proof (intro allI impI)
    fix x v j
    assume "x < n" "v < n" "((wk s)(w := WExit)) x = WHas j" "((wk s)(w := WExit)) v = WHas j"
    then show "x = v" using c(5) [of x v j] by (cases "x = w"; cases "v = w") auto
  qed
  show ?thesis unfolding pool_ctl_def
    apply (intro conjI)
    subgoal using c(1) by simp
    subgoal using c(2) by simp
    subgoal using assms(4) by simp
    subgoal using nc by simp
    subgoal using u by simp
    subgoal using h c(6) by simp
    subgoal using c(7) by simp
    subgoal using c(8) by simp
    subgoal using c(9) by simp
    done
qed

lemma pool_step_ctl:
  "pool_step chs failed blk n s t \<Longrightarrow> pool_ctl chs failed n s \<Longrightarrow> pool_ctl chs failed n t"
proof (induction rule: pool_step.induct)
  case (send s w)
  show ?case by (rule pool_ctl_send [OF send.prems send.hyps])
next
  case (deliver w s i)
  then show ?case by (intro pool_ctl_deliver)
next
  case (worker_exit w s)
  then show ?case by (intro pool_ctl_exit)
next
  case (reader_end s)
  then show ?case using pool_ctl_D(8) [OF reader_end.prems] unfolding pool_ctl_def by auto
next
  case (reader_err s)
  then show ?case unfolding pool_ctl_def by auto
next
  case (reader_panic s)
  have "n = 0"
  proof (rule ccontr)
    assume "n \<noteq> 0"
    then show False
      using pool_ctl_D(3,4) [OF reader_panic.prems, of 0] reader_panic.hyps(3,4) by simp
  qed
  with reader_panic show ?case unfolding pool_ctl_def by auto
next
  case (closer s)
  then show ?case unfolding pool_ctl_def by auto
next
  case (main_end s)
  then show ?case unfolding pool_ctl_def by auto
qed

lemma pool_written_send:
  assumes "pool_written chs blk n s" "w < n" "wk s w = WIdle"
  shows "pool_written chs blk n (s\<lparr>rd_next := Suc (rd_next s), wk := (wk s)(w := WHas (rd_next s))\<rparr>)"
proof -
  obtain ord where o: "distinct ord" "set ord = {..<rd_next s} - held n (wk s)"
      "out s = concat (map (\<lambda>i. blk (chs ! i)) ord)"
    using assms(1) unfolding pool_written_def by blast
  have "{..<Suc (rd_next s)} - insert (rd_next s) (held n (wk s)) = {..<rd_next s} - held n (wk s)"
    by auto
  then have "set ord = {..<Suc (rd_next s)} - held n ((wk s)(w := WHas (rd_next s)))"
    using o(2) held_upd_send [of w n "wk s", OF assms(2,3)] by simp
  with o(1,3) have "\<exists>ord. distinct ord \<and> set ord = {..<Suc (rd_next s)} - held n ((wk s)(w := WHas (rd_next s)))
      \<and> out s = concat (map (\<lambda>i. blk (chs ! i)) ord)" by blast
  then show ?thesis unfolding pool_written_def by simp
qed

lemma pool_written_deliver:
  assumes "pool_written chs blk n s" "pool_ctl chs failed n s" "w < n" "wk s w = WHas i"
  shows "pool_written chs blk n (s\<lparr>out := out s @ blk (chs ! i), wk := (wk s)(w := WIdle)\<rparr>)"
proof -
  note c = pool_ctl_D [OF assms(2)]
  obtain ord where o: "distinct ord" "set ord = {..<rd_next s} - held n (wk s)"
      "out s = concat (map (\<lambda>i. blk (chs ! i)) ord)"
    using assms(1) unfolding pool_written_def by blast
  have hi: "i \<in> held n (wk s)" using assms(3,4) unfolding held_def by blast
  have uq: "\<forall>v<n. wk s v = WHas i \<longrightarrow> v = w" using c(5) assms(3,4) by blast
  have "distinct (ord @ [i])" using o(1,2) hi by auto
  moreover have "set (ord @ [i]) = {..<rd_next s} - held n ((wk s)(w := WIdle))"
  proof -
    have "{..<rd_next s} - (held n (wk s) - {i}) = insert i ({..<rd_next s} - held n (wk s))"
      using hi c(6) by blast
    then show ?thesis using o(2) held_upd_deliver [OF assms(3,4) uq] by simp
  qed
  moreover have "out s @ blk (chs ! i) = concat (map (\<lambda>i. blk (chs ! i)) (ord @ [i]))"
    using o(3) by simp
  ultimately have "\<exists>ord. distinct ord \<and> set ord = {..<rd_next s} - held n ((wk s)(w := WIdle))
      \<and> out s @ blk (chs ! i) = concat (map (\<lambda>i. blk (chs ! i)) ord)" by blast
  then show ?thesis unfolding pool_written_def by simp
qed

lemma pool_written_exit:
  assumes "pool_written chs blk n s" "w < n" "wk s w = WIdle"
  shows "pool_written chs blk n (s\<lparr>wk := (wk s)(w := WExit)\<rparr>)"
  using assms(1) held_upd_exit [of w n "wk s", OF assms(2,3)] unfolding pool_written_def by simp

lemma pool_step_written:
  "pool_step chs failed blk n s t \<Longrightarrow> pool_ctl chs failed n s \<Longrightarrow> pool_written chs blk n s
   \<Longrightarrow> pool_written chs blk n t"
proof (induction rule: pool_step.induct)
  case (send s w)
  show ?case by (rule pool_written_send [OF send.prems(2) send.hyps(2,3)])
next
  case (deliver w s i)
  show ?case by (rule pool_written_deliver [OF deliver.prems(2,1) deliver.hyps(1,2)])
next
  case (worker_exit w s)
  show ?case by (rule pool_written_exit [OF worker_exit.prems(2) worker_exit.hyps(1,2)])
qed (unfold pool_written_def pool_st.simps, simp_all)

lemma pool_reachable_inv:
  assumes "(pool_step chs failed blk n)\<^sup>*\<^sup>* pool_init s"
  shows "pool_ctl chs failed n s \<and> pool_written chs blk n s"
  using assms
proof (induction rule: rtranclp_induct)
  case base
  then show ?case by (simp add: pool_ctl_init pool_written_init)
next
  case (step s t)
  then show ?case using pool_step_ctl pool_step_written by blast
qed

lemma pool_progress:
  assumes "pool_ctl chs failed n s" "\<not> main_done s"
  shows "\<exists>t. pool_step chs failed blk n s t"
proof -
  note c = pool_ctl_D [OF assms(1)]
  show ?thesis
  proof (cases "\<exists>w<n. \<exists>i. wk s w = WHas i")
    case True
    then obtain w i where "w < n" "wk s w = WHas i" by blast
    then show ?thesis using assms(2) by (blast intro: pool_step.deliver)
  next
    case nohas: False
    show ?thesis
    proof (cases "\<exists>w<n. wk s w = WIdle \<and> (rd_next s < length chs \<or> rd_done s)")
      case True
      then obtain w where w: "w < n" "wk s w = WIdle" "rd_next s < length chs \<or> rd_done s" by blast
      then show ?thesis by (blast intro: pool_step.send pool_step.worker_exit)
    next
      case noidle: False
      show ?thesis
      proof (cases "rd_next s = length chs \<and> \<not> rd_done s")
        case True
        then show ?thesis using assms(2)
          by (cases failed; cases "res_closed s") (blast intro: pool_step.intros)+
      next
        case False
        have "\<forall>w<n. wk s w = WExit"
        proof (intro allI impI)
          fix w
          assume "w < n"
          then show "wk s w = WExit" using nohas noidle False c(1)
            by (cases "wk s w") (auto simp: le_less)
        qed
        then show ?thesis using assms(2)
          by (cases "res_closed s") (blast intro: pool_step.closer pool_step.main_end)+
      qed
    qed
  qed
qed

lemma pool_emit_fail:
  "set ord \<subseteq> {..<length chunks}
   \<Longrightarrow> pool_emit blk chunks (ord @ [length chunks]) acc = (Some ReadFailed, acc @ concat (map (\<lambda>i. blk (chunks ! i)) ord))"
  by (induction ord arbitrary: acc) auto

lemma distinct_set_upt_mset:
  "distinct xs \<Longrightarrow> set xs = {..<k} \<Longrightarrow> mset xs = mset [0..<k]"
  by (metis distinct_upt set_upt atLeast0LessThan set_eq_iff_mset_eq_distinct)

inductive_cases pool_step_from: "pool_step chs failed blk n s t"

lemma pool_run_ok_reach:
  "(pool_step [[1]] False (compressBlock encode_frame) 1)\<^sup>*\<^sup>* pool_init
     \<lparr>rd_next = 1, rd_done = True, wk = (\<lambda>_. WIdle)(0 := WExit), res_closed = True,
      out = encode_frame [1], err = None, main_done = True\<rparr>"
  apply (rule converse_rtranclp_into_rtranclp, rule pool_step.send [where w = 0], simp_all add: pool_init_def)
  apply (rule converse_rtranclp_into_rtranclp, rule pool_step.reader_end, simp_all)
  apply (rule converse_rtranclp_into_rtranclp, rule pool_step.deliver [where w = 0], simp_all add: compressBlock_def)
  apply (rule converse_rtranclp_into_rtranclp, rule pool_step.worker_exit [where w = 0], simp_all)
  apply (rule converse_rtranclp_into_rtranclp, rule pool_step.closer, simp_all)
  apply (rule converse_rtranclp_into_rtranclp, rule pool_step.main_end, simp_all)
  done

lemma pool_run_ok_stuck:
  "\<not> pool_step [[1]] False (compressBlock encode_frame) 1
     \<lparr>rd_next = 1, rd_done = True, wk = (\<lambda>_. WIdle)(0 := WExit), res_closed = True,
      out = encode_frame [1], err = None, main_done = True\<rparr> t"
  by (auto elim: pool_step_from)



section \<open>Properties\<close>

text \<open>
  C10 (termination). Every run of the goroutines of \<open>compressFile\<close> is finite:
  the steps form a well-founded relation, whatever the input, the read error
  and the worker count.
\<close>

theorem pool_step_terminates: "wfp (\<lambda>t s. pool_step chs failed blk n s t)"
  by (rule wfp_if_convertible_to_nat [where f = "pool_measure chs n"]) (rule pool_step_measure)

text \<open>
  C9 (liveness). A run can only stop once \<open>compressFile\<close> has returned: no
  reachable state before the return is a deadlock. When it returned without an
  error and there are workers, the reader and every worker have returned too.
\<close>

theorem pool_run_ends:
  assumes "(pool_step chs failed blk n)\<^sup>*\<^sup>* pool_init s" "\<forall>t. \<not> pool_step chs failed blk n s t"
  shows "main_done s \<and> (err s = None \<longrightarrow> 0 < n \<longrightarrow> rd_done s \<and> (\<forall>w<n. wk s w = WExit))"
proof -
  have ctl: "pool_ctl chs failed n s" using pool_reachable_inv [OF assms(1)] by blast
  note c = pool_ctl_D [OF ctl]
  have md: "main_done s" using pool_progress [OF ctl] assms(2) by blast
  moreover have "rd_done s \<and> (\<forall>w<n. wk s w = WExit)" if "err s = None" "0 < n"
  proof -
    have "res_closed s" using c(7) md that(1) by blast
    then have "\<forall>w<n. wk s w = WExit" using c(4) by blast
    then show ?thesis using c(3) that(2) by blast
  qed
  ultimately show ?thesis by blast
qed

theorem pool_run_ends_witness:
  "(pool_step [[1]] False (compressBlock encode_frame) 1)\<^sup>*\<^sup>* pool_init
     \<lparr>rd_next = 1, rd_done = True, wk = (\<lambda>_. WIdle)(0 := WExit), res_closed = True,
      out = encode_frame [1], err = None, main_done = True\<rparr>
   \<and> main_done \<lparr>rd_next = 1, rd_done = True, wk = (\<lambda>_. WIdle)(0 := WExit), res_closed = True,
      out = encode_frame [1], err = None, main_done = True\<rparr>"
  using pool_run_ends [OF pool_run_ok_reach allI [OF pool_run_ok_stuck]] pool_run_ok_reach by simp

text \<open>
  C8 (refinement). With at least one worker, the outcome of every completed
  run of the goroutines, whose workers compress with \<open>compressBlock\<close>, is what
  \<open>pool_compressFile\<close> gives for some arrival order of the results: the function model of \<open>Worker_Pool\<close> abstracts the
  concurrent code soundly, and on success the order is a permutation of the
  chunks.
\<close>

theorem pool_step_refines:
  assumes "(pool_step chs failed (compressBlock ew) n)\<^sup>*\<^sup>* pool_init s" "main_done s" "0 < n"
    and "pool_read rd content 0 = (chs, failed)"
  shows "\<exists>ord. pool_compressFile rd ew content (int n) ord = (err s, out s)
           \<and> (err s = None \<longrightarrow> mset ord = mset [0..<length chs])"
proof -
  have inv: "pool_ctl chs failed n s" "pool_written chs (compressBlock ew) n s"
    using pool_reachable_inv [OF assms(1)] by (rule conjunct1, rule conjunct2)
  note c = pool_ctl_D [OF inv(1)]
  obtain ord where o: "distinct ord" "set ord = {..<rd_next s} - held n (wk s)"
      "out s = concat (map (\<lambda>i. compressBlock ew (chs ! i)) ord)"
    using inv(2) unfolding pool_written_def by (elim exE conjE) (rule that)
  have sub: "set ord \<subseteq> {..<length chs}"
  proof
    fix x
    assume "x \<in> set ord"
    then have "x < rd_next s" using o(2) by blast
    then show "x \<in> {..<length chs}" using c(1) by simp
  qed
  have pc: "pool_compressFile rd ew content (int n) xs = pool_emit (compressBlock ew) chs xs []" for xs
    using assms(3,4) by (simp add: pool_compressFile_def)
  show ?thesis
  proof (cases "err s")
    case None
    have "res_closed s" using c(7) assms(2) None by blast
    then have ex: "\<forall>w<n. wk s w = WExit" using c(4) by blast
    then have "rd_next s = length chs" using c(3) [of 0] c(2) assms(3) by blast
    moreover have "held n (wk s) = {}" using ex by (rule held_all_exit)
    ultimately have "set ord = {..<length chs}" using o(2) by simp
    then have "mset ord = mset [0..<length chs]" using o(1) by (rule distinct_set_upt_mset [rotated])
    moreover have "pool_emit (compressBlock ew) chs ord [] = (None, out s)" using pool_emit_valid [OF sub] o(3) by simp
    ultimately show ?thesis using None pc [of ord] by (intro exI [of _ ord]) simp
  next
    case (Some e)
    then have "e = ReadFailed" using c(8) assms(3) by auto
    then have "pool_emit (compressBlock ew) chs (ord @ [length chs]) [] = (err s, out s)"
      using pool_emit_fail [OF sub] o(3) Some by simp
    then show ?thesis using Some pc [of "ord @ [length chs]"] by (intro exI [of _ "ord @ [length chs]"]) simp
  qed
qed

theorem pool_step_refines_witness:
  "\<exists>ord. pool_compressFile (const_reads oneMB) encode_frame [1] 1 ord = (None, encode_frame [1])
     \<and> mset ord = mset [0]"
proof -
  have rd: "pool_read (const_reads oneMB) [1] 0 = ([[1]], False)"
    by (simp add: pool_read.simps const_reads_def oneMB_def)
  show ?thesis
    using pool_step_refines [OF pool_run_ok_reach _ _ rd] by simp
qed

text \<open>
  C36 (error). With no worker (\<open>-T 0\<close>) and a non-empty input, every run
  returns success with nothing written, and the reader goroutine stays blocked
  on its first send: the input is never read past its first chunk.
\<close>

theorem pool_no_workers:
  assumes "(pool_step chs failed blk 0)\<^sup>*\<^sup>* pool_init s" "main_done s" "chs \<noteq> []"
  shows "err s = None \<and> out s = [] \<and> rd_next s = 0 \<and> \<not> rd_done s"
proof -
  have inv: "pool_ctl chs failed 0 s" "pool_written chs blk 0 s"
    using pool_reachable_inv [OF assms(1)] by (rule conjunct1, rule conjunct2)
  note c = pool_ctl_D [OF inv(1)]
  have r: "rd_next s = 0" using c(9) by simp
  then have nd: "\<not> rd_done s" using c(2) assms(3) by auto
  then have "err s = None" using c(8) by (cases "err s") auto
  moreover have "out s = []" using inv(2) r unfolding pool_written_def by auto
  ultimately show ?thesis using r nd by blast
qed

theorem pool_no_workers_witness:
  "(pool_step [[1]] False encode_frame 0)\<^sup>*\<^sup>* pool_init
     \<lparr>rd_next = 0, rd_done = False, wk = (\<lambda>_. WIdle), res_closed = True,
      out = [], err = None, main_done = True\<rparr>
   \<and> out \<lparr>rd_next = 0, rd_done = False, wk = (\<lambda>_. WIdle), res_closed = True,
      out = [], err = None, main_done = True\<rparr> = []"
proof -
  have r: "(pool_step [[1]] False encode_frame 0)\<^sup>*\<^sup>* pool_init
     \<lparr>rd_next = 0, rd_done = False, wk = (\<lambda>_. WIdle), res_closed = True,
      out = [], err = None, main_done = True\<rparr>"
    apply (rule converse_rtranclp_into_rtranclp, rule pool_step.closer, simp_all add: pool_init_def)
    apply (rule converse_rtranclp_into_rtranclp, rule pool_step.main_end, simp_all)
    done
  show ?thesis using pool_no_workers [OF r] r by simp
qed


end
