(* ===== verification/Variant_Mains.thy ===== *)
theory Variant_Mains
  imports Cli Block_LimitReader
begin

text \<open>
  The two single-threaded variants of the tool, both over the process state of
  \<open>Cli\<close>. \<^verbatim>\<open>src/unnamed/part_001\<close> (cgo bindings to libzstd) reads the whole
  input into memory, compresses or decompresses it in one call and only then
  writes the result: to standard output with \<open>-c\<close>, else to the \<open>-o\<close> file,
  else it fails. \<^verbatim>\<open>src/play/tmp/streammode/main.go\<close> opens the input, creates
  the output file (unless \<open>-c\<close>) and streams the data through the encoder or
  decoder, like the stream mode of \<open>part_000\<close>. The codecs are the parameters
  \<open>enc\<close> and \<open>dec\<close> of \<open>Codec\<close>; a decoding error of the streaming decoder is
  taken to write nothing.
\<close>

section \<open>The whole-file variant\<close>






section \<open>The stream-mode variant\<close>

text \<open>The flags of \<^verbatim>\<open>streammode/main.go\<close> and their defaults, lines 60--64.\<close>

definition sm_default_opts :: "string list \<Rightarrow> cli_opts" where
  "sm_default_opts as = \<lparr>opt_d = False, opt_c = False, opt_o = [], opt_l = 3, opt_T = 0, opt_b = False, args = as\<rparr>"

text \<open>
  Lines 21--41 and 43--56: \<open>compress\<close> copies the input through the streaming
  encoder (the worker count only sets the encoder's concurrency, which does not
  change its output); \<open>decompress\<close> copies the decoder's output.
\<close>

definition sm_compress :: "(bytes \<Rightarrow> bytes) \<Rightarrow> bytes \<Rightarrow> int \<Rightarrow> bytes" where
  "sm_compress enc input numThreads = enc input"

definition sm_decompress :: "(bytes \<Rightarrow> bytes option) \<Rightarrow> bytes \<Rightarrow> failure + bytes" where
  "sm_decompress dec input = (case dec input of None \<Rightarrow> Inl DecodeFailed | Some out \<Rightarrow> Inr out)"

text \<open>Lines 58--118. The output file is created before the input is read.\<close>

definition sm_main :: "(bytes \<Rightarrow> bytes) \<Rightarrow> (bytes \<Rightarrow> bytes option) \<Rightarrow> cli_opts \<Rightarrow> proc \<Rightarrow> cli_exit \<times> proc" where
  "sm_main enc dec opts p =
     (let src = (case args opts of [] \<Rightarrow> None | a # _ \<Rightarrow> Some a)
      in if (case src of Some f \<Rightarrow> pfs p f = None | None \<Rightarrow> False)
         then (Exit1 (OpenFailed (the src)), p)
         else
           let (out, p0) = (if \<not> opt_c opts \<and> opt_o opts \<noteq> []
                            then (ToFile (opt_o opts), p\<lparr>pfs := (pfs p)(opt_o opts \<mapsto> [])\<rparr>)
                            else (ToStdout, p));
               input = (case src of None \<Rightarrow> stdin p0 | Some f \<Rightarrow> (case pfs p0 f of None \<Rightarrow> [] | Some c \<Rightarrow> c))
           in if opt_d opts then
                (case sm_decompress dec input of
                   Inl e \<Rightarrow> (Exit1 e, p0)
                 | Inr data \<Rightarrow> (ExitOk, write_sink out data p0))
              else (ExitOk, write_sink out (sm_compress enc input (opt_T opts)) p0))"

section \<open>The LimitReader variant's command line\<close>

text \<open>
  Lines 128--141 and 144--157 of \<^verbatim>\<open>src/play/tmp/main.go\<close>: the stream
  functions of this variant.
\<close>

definition lr_compressStream :: "(bytes \<Rightarrow> bytes) \<Rightarrow> bytes \<Rightarrow> bytes" where
  "lr_compressStream enc input = enc input"

definition lr_decompressFile :: "(bytes \<Rightarrow> bytes option) \<Rightarrow> bytes \<Rightarrow> failure + bytes" where
  "lr_decompressFile dec input = (case dec input of None \<Rightarrow> Inl DecodeFailed | Some out \<Rightarrow> Inr out)"

text \<open>
  The flags and their defaults, lines 161--166: the level is registered as
  \<open>-1\<close>, block mode as \<open>-block\<close> (\<open>opt_b\<close>).
\<close>

definition lr_default_opts :: "string list \<Rightarrow> cli_opts" where
  "lr_default_opts as = \<lparr>opt_d = False, opt_c = False, opt_o = [], opt_l = 3, opt_T = 4, opt_b = False, args = as\<rparr>"

text \<open>
  Lines 159--225. Block mode takes the input as an \<open>*os.File\<close>, which standard
  input always is: its workers reopen it by its name \<open>/dev/stdin\<close>, taken here
  to hold standard input (a redirected regular file).
\<close>

definition lr_main ::
  "reader \<Rightarrow> (bytes \<Rightarrow> bytes) \<Rightarrow> (bytes \<Rightarrow> bytes option) \<Rightarrow> nat list \<Rightarrow> cli_opts \<Rightarrow> proc \<Rightarrow> cli_exit \<times> proc" where
  "lr_main rd enc dec order opts p =
     (let src = (case args opts of [] \<Rightarrow> None | a # _ \<Rightarrow> Some a)
      in if (case src of Some f \<Rightarrow> pfs p f = None | None \<Rightarrow> False)
         then (Exit1 (OpenFailed (the src)), p)
         else
           let (out, p0) = (if \<not> opt_c opts \<and> opt_o opts \<noteq> []
                            then (ToFile (opt_o opts), p\<lparr>pfs := (pfs p)(opt_o opts \<mapsto> [])\<rparr>)
                            else (ToStdout, p));
               input = (case src of None \<Rightarrow> stdin p0 | Some f \<Rightarrow> (case pfs p0 f of None \<Rightarrow> [] | Some c \<Rightarrow> c))
           in if opt_d opts then
                (case lr_decompressFile dec input of
                   Inl e \<Rightarrow> (Exit1 e, p0)
                 | Inr data \<Rightarrow> (ExitOk, write_sink out data p0))
              else if opt_b opts then
                (let name = (case src of None \<Rightarrow> ''/dev/stdin'' | Some f \<Rightarrow> f);
                     fs = (case src of None \<Rightarrow> (pfs p0)(''/dev/stdin'' \<mapsto> stdin p0) | Some f \<Rightarrow> pfs p0)
                 in case lr_compressFileBlock rd enc fs name (opt_T opts) order of
                      Inl e \<Rightarrow> ((if is_panic e then Crash e else Exit1 e), p0)
                    | Inr data \<Rightarrow> (ExitOk, write_sink out data p0))
              else (ExitOk, write_sink out (lr_compressStream enc input) p0))"

section \<open>Properties\<close>





text \<open>
  C34 (roundtrip). Compressing a file with the stream-mode variant to \<open>g\<close> and
  decompressing \<open>g\<close> to \<open>h\<close> gives back the file's contents, when the three
  paths do not collide.
\<close>

theorem sm_main_roundtrip:
  assumes "dec (enc c) = Some c" "pfs p f = Some c" "g \<noteq> []" "h \<noteq> []" "g \<noteq> f" "h \<noteq> g"
  shows "\<exists>p1 p2. sm_main enc dec ((sm_default_opts [f])\<lparr>opt_o := g\<rparr>) p = (ExitOk, p1)
           \<and> sm_main enc dec ((sm_default_opts [g])\<lparr>opt_d := True, opt_o := h\<rparr>) p1 = (ExitOk, p2)
           \<and> pfs p2 h = Some c"
proof -
  let ?p1 = "p\<lparr>pfs := (pfs p)(g \<mapsto> enc c)\<rparr>"
  have m1: "sm_main enc dec ((sm_default_opts [f])\<lparr>opt_o := g\<rparr>) p = (ExitOk, ?p1)"
    using assms(2,3,5) by (simp add: sm_main_def sm_default_opts_def Let_def write_sink_def sm_compress_def)
  have m2: "sm_main enc dec ((sm_default_opts [g])\<lparr>opt_d := True, opt_o := h\<rparr>) ?p1
      = (ExitOk, ?p1\<lparr>pfs := (pfs ?p1)(h \<mapsto> c)\<rparr>)"
    using assms(1,4,6) by (simp add: sm_main_def sm_default_opts_def Let_def write_sink_def sm_decompress_def)
  show ?thesis using m1 m2 by auto
qed

theorem sm_main_roundtrip_witness:
  "\<exists>p1 p2. sm_main encode_frame decode_frames ((sm_default_opts [''a''])\<lparr>opt_o := ''b''\<rparr>)
              \<lparr>pfs = [''a'' \<mapsto> [1, 2]], stdin = [], stdout = []\<rparr> = (ExitOk, p1)
         \<and> sm_main encode_frame decode_frames ((sm_default_opts [''b''])\<lparr>opt_d := True, opt_o := ''c''\<rparr>) p1
              = (ExitOk, p2)
         \<and> pfs p2 ''c'' = Some [1, 2]"
  by (rule sm_main_roundtrip) (simp_all add: decode_frames.simps encode_frame_def zstd_magic_def varint.simps)



text \<open>
  C37 (roundtrip). The LimitReader variant's command line composed with its
  block mode: compressing a file with \<open>-block\<close> to \<open>g\<close>, for any positive
  worker count, read size and completion order, and decompressing \<open>g\<close> to \<open>h\<close>
  gives back the file's contents.
\<close>

theorem lr_main_block_roundtrip:
  assumes "frame_law enc dec" "pfs p f = Some c" "g \<noteq> []" "h \<noteq> []" "g \<noteq> f" "h \<noteq> g"
    and "0 < T" "0 < k"
  shows "\<exists>p1 p2. lr_main (const_reads k) enc dec order ((lr_default_opts [f])\<lparr>opt_o := g, opt_T := T, opt_b := True\<rparr>) p
             = (ExitOk, p1)
           \<and> lr_main (const_reads k) enc dec order ((lr_default_opts [g])\<lparr>opt_d := True, opt_o := h\<rparr>) p1 = (ExitOk, p2)
           \<and> pfs p2 h = Some c"
proof -
  let ?out = "lr_output enc (min k oneMB) c T"
  let ?p1 = "p\<lparr>pfs := (pfs p)(g \<mapsto> ?out)\<rparr>"
  have fs: "((pfs p)(g \<mapsto> [])) f = Some c" using assms(2,5) by simp
  have blk: "lr_compressFileBlock (const_reads k) enc ((pfs p)(g \<mapsto> [])) f T order = Inr ?out"
    by (rule lr_compressFileBlock_const [where fs = "(pfs p)(g \<mapsto> [])" and name = f and content = c, OF fs assms(7,8)])
  have dec: "dec ?out = Some c" using lr_output_decodes [OF assms(7) _ assms(1)] assms(8) by simp
  have m1: "lr_main (const_reads k) enc dec order ((lr_default_opts [f])\<lparr>opt_o := g, opt_T := T, opt_b := True\<rparr>) p
      = (ExitOk, ?p1)"
    using assms(2,3) blk by (simp add: lr_main_def lr_default_opts_def Let_def write_sink_def)
  have m2: "lr_main (const_reads k) enc dec order ((lr_default_opts [g])\<lparr>opt_d := True, opt_o := h\<rparr>) ?p1
      = (ExitOk, ?p1\<lparr>pfs := (pfs ?p1)(h \<mapsto> c)\<rparr>)"
    using assms(4,6) dec by (simp add: lr_main_def lr_default_opts_def Let_def write_sink_def lr_decompressFile_def)
  show ?thesis using m1 m2 by auto
qed

theorem lr_main_block_roundtrip_witness:
  "\<exists>p1 p2. lr_main (const_reads 2) encode_frame decode_frames [1, 0]
              ((lr_default_opts [''a''])\<lparr>opt_o := ''b'', opt_T := 2, opt_b := True\<rparr>)
              \<lparr>pfs = [''a'' \<mapsto> [1, 2, 3]], stdin = [], stdout = []\<rparr> = (ExitOk, p1)
         \<and> lr_main (const_reads 2) encode_frame decode_frames [1, 0]
              ((lr_default_opts [''b''])\<lparr>opt_d := True, opt_o := ''c''\<rparr>) p1 = (ExitOk, p2)
         \<and> pfs p2 ''c'' = Some [1, 2, 3]"
  by (rule lr_main_block_roundtrip) (simp_all add: stored_frames_law)

end
