(* ===== verification/Spec2Isabelle.thy ===== *)
theory Spec2Isabelle
  imports Cli Block_LimitReader Pool_Channels Variant_Mains
begin

text \<open>
  \<^bold>\<open>A verification model of gozstd: its block-mode compression pipeline, its command line tool and their earlier variants.\<close>

  The repository is a Go command line tool around a zstd codec. Its block mode
  (\<^verbatim>\<open>src/unnamed/part_000\<close>, the \<^verbatim>\<open>main.go\<close> that \<^verbatim>\<open>build.sh\<close> builds) splits
  an input file into byte ranges (\<open>divideFileIntoSegments\<close>), compresses each
  range in its own goroutine into a numbered segment file (\<open>compressPart\<close>),
  and concatenates the segment files in index order into the output
  (\<open>concatenateFiles\<close>), all driven by \<open>compressFileBlock\<close>. The other Go files
  are earlier variants of the same tool: a block mode that slices the file with
  \<open>io.LimitReader\<close> (\<^verbatim>\<open>src/play/tmp/main.go\<close>), a worker-pool block mode over a
  channel (\<^verbatim>\<open>src/unnamed/part_002\<close>), a cgo variant (\<^verbatim>\<open>src/unnamed/part_001\<close>)
  and a plain stream mode (\<^verbatim>\<open>src/play/tmp/streammode/main.go\<close>).

  \<^bold>\<open>Library.\<close>
  \<^item> \<open>Go_Prelude\<close>: bytes, the file system as a map from paths to contents
    (\<open>fsys\<close>), the \<open>failure\<close> datatype (every returned error and every panic of
    the pipeline, \<open>is_panic\<close> telling them apart), Go's int64 arithmetic on
    \<open>int\<close> with the wrap-around written out (\<open>i64\<close>, truncating \<open>go_quot\<close> and
    \<open>go_rem\<close>), \<open>oneMB\<close>, \<open>chunks_of\<close> and \<open>byte_range\<close>, and the generic lemmas on
    lists and map updates the components share.
  \<^item> \<open>Segment_Planner\<close>: \<open>divmod\<close>, \<open>divideFileIntoSegments\<close> (its loop is
    \<open>plan_loop\<close>, one equation per iteration) and \<open>calculateSegment\<close>; the spec's
    closed form \<open>plan\<close>; the refinement of \<open>plan\<close> by the code when
    \<open>fileSize + 2^20 \<le> 2^63\<close>, the partition invariant \<open>is_partition\<close>, the segment
    shape (alignment to 1 MiB, empty segments only at the end of the file), the
    balance of the shares, the error branches and the int64 wrap-around beyond
    the bound.
  \<^item> \<open>Go_Strings\<close>: \<open>fmt\<close>'s \<open>%d\<close>, \<open>strconv.Atoi\<close>, \<open>filepath.Base\<close> and
    \<open>strings.SplitN\<close> as the code uses them (library functions, modelled from their
    documentation), and the segment file name \<open>segment_file_name\<close> of
    \<open>compressPart\<close>, which never equals the input path.
  \<^item> \<open>Codec\<close>: the zstd engine is a library; the pipeline relies only on its
    framing law \<open>frame_law enc dec\<close> (decoding a concatenation of frames gives the
    concatenation of the inputs). A stored-block frame codec (\<open>encode_frame\<close>,
    \<open>decode_frames\<close>: magic number, LEB128 length, payload) satisfies it and serves as
    the concrete codec of the witnesses. \<open>compressStream\<close>, \<open>decompressFile\<close>.
  \<^item> \<open>Segment_Worker\<close>: \<open>compressPart\<close>. Its read loop is \<open>part_loop\<close>, a
    \<^theory_text>\<open>function\<close> whose termination measure is the number of bytes left after
    the read position; the size each read returns is a parameter \<open>rd\<close> (a regular
    file read with a 1 MiB buffer is \<open>const_reads oneMB\<close>). Lemmas: exact reading of
    segments of the planner's shape, the over-read panic, end of file before the
    end offset, the read error; the segment file stays behind on every path.
  \<^item> \<open>Reassembler\<close>: \<open>concatenateFiles\<close> (\<open>parse_segment_index\<close>,
    \<open>collect_indices\<close>, the sort by index, \<open>copy_files\<close>, \<open>remove_files\<close>). Lemmas:
    the name/index round trip, ordered concatenation for any arrival order, the
    missing-segment error that leaves partial output.
  \<^item> \<open>Orchestrator\<close>: \<open>compressFileBlock\<close> with the goroutines' shared state as a
    record \<open>pipeline\<close> (file system and the two channels). Workers touch disjoint
    files, so each worker's effect is taken at its completion (\<open>worker_done\<close>) and
    the completion order is a parameter (\<open>run_workers\<close>); every theorem holds for
    every permutation. The end-to-end theorem: the output decodes to the input.

  \<^item> \<open>Cli\<close>: \<open>main\<close> of \<open>part_000\<close> after flag parsing, over a process state
    \<open>proc\<close> (file system, standard input, standard output) and the parsed flags
    \<open>cli_opts\<close>; exits and panics are \<open>cli_exit\<close> values. Lemmas: the stream-mode
    round trip through two runs of the tool, the dead block-mode guard, the
    truncation of the input when \<open>-o\<close> names it, the empty output file left by
    a failed decompression.
  \<^item> \<open>Block_LimitReader\<close>: the block mode of \<^verbatim>\<open>src/play/tmp/main.go\<close>, which
    gives each worker \<open>fileSize / numThreads\<close> bytes through \<open>io.LimitReader\<close>
    (\<open>seg_loop\<close>, \<open>lr_part\<close>, \<open>lr_worker\<close>, \<open>lr_compressFileBlock\<close>): its round
    trip for every read size and completion order, and the part lengths.
  \<^item> \<open>Worker_Pool\<close>: the channel worker pool of \<^verbatim>\<open>src/unnamed/part_002\<close> as
    functions: \<open>compressBlock\<close> (the streaming encoder's output as it stands
    after \<open>Write\<close>, before the deferred \<open>Close\<close>) and \<open>decompressBlock\<close>, the
    reader loop \<open>pool_read\<close>, the caller's loop \<open>pool_emit\<close> over the results in
    arrival order (a parameter), \<open>pool_compressFile\<close>, \<open>pool_decompress\<close> and
    \<open>pool_main\<close>. Lemmas: the shape of the reader's chunks, output in completion
    order, decoding of each read on its own, the empty output of \<open>-T 0\<close> and of
    an encoder that buffers until \<open>Close\<close>, the partial output of a failed
    decompression.
  \<^item> \<open>Pool_Channels\<close>: the same \<open>compressFile\<close> as goroutines: a record
    \<open>pool_st\<close> of the reader, the workers (\<open>wstate\<close>), the closer and the caller,
    and an inductive step relation \<open>pool_step\<close> with one rule per
    send/receive rendezvous on the unbuffered channels. An invariant
    (\<open>pool_ctl\<close>, \<open>pool_written\<close>) holds in every reachable state. Lemmas:
    every run is finite (a measure), a run stops only after the caller
    returned, the function model \<open>pool_compressFile\<close> is refined by every
    completed run with workers, and the goroutine leaks of \<open>-T 0\<close> and of the
    read-error path.
  \<^item> \<open>Variant_Mains\<close>: the whole-file cgo variant \<^verbatim>\<open>src/unnamed/part_001\<close>
    (\<open>compressData\<close>, \<open>decompressData\<close>, \<open>wf_write\<close>, \<open>wf_main\<close>) and the
    stream-mode variant \<^verbatim>\<open>src/play/tmp/streammode/main.go\<close> (\<open>sm_main\<close>):
    round trips, the missing default output of the cgo variant, and in-place
    compression, which only the whole-file variant gets right. Also the command line of the LimitReader variant (\<open>lr_main\<close>, with
    its stream functions), whose block mode composed with decompression gives
    back the input.

  \<^bold>\<open>Bounds and fuel.\<close> Integers are Go int64 values kept as \<open>int\<close>; every
  arithmetic operation of the planner is wrapped by \<open>i64\<close>, so the model computes
  what the code computes for every input, and the theorems say where no wrap
  happens (\<open>fileSize + 2^20 \<le> 2^63\<close>, worker count an int64). No loop needs fuel:
  the read loops \<open>part_loop\<close>, \<open>seg_loop\<close>, \<open>pool_read\<close> and \<open>pool_decompress\<close>
  terminate by the number of bytes left after the read position, the other
  loops are structural, and the interleavings of \<open>Pool_Channels\<close> are finite by
  \<open>pool_measure\<close>.

  \<^bold>\<open>Not modelled.\<close> The zstd engines (klauspost/compress and the libzstd
  binding) are libraries: the model takes the encoder and decoder as parameters
  with the framing law; what the streaming encoder of \<open>part_002\<close> has written
  when \<open>Write\<close> returns is a parameter as well, constrained only by the
  hypotheses of the theorems that use it.
  The \<open>flag\<close> package, usage and version output, \<open>Close\<close> calls and write
  errors of the output are not modelled (the model's writes cannot fail). The
  reuse of the reader's buffer in \<open>part_002\<close> while a worker may still read it
  is a data race below the level of the step relation, which passes chunks by
  value. \<^verbatim>\<open>build.sh\<close> and \<^verbatim>\<open>part_003\<close> are shell build scripts with no
  behaviour to verify.
\<close>

end
